theory Spec2Isabelle
  imports Complex_Main "HOL-Library.Word"
begin

unbundle bit_operations_syntax

section \<open>The Modbus RTU sniffer: checksum, frame decoder and buffering\<close>

text \<open>
  A shallow embedding of \<^verbatim>\<open>modbus_sniffer.py\<close>. The sniffer collects the bytes read from
  the serial line in \<^verbatim>\<open>self.data\<close> (a bytearray) and, when a read returns nothing (the
  inter-frame timeout), hands the buffer to \<^verbatim>\<open>decode_modbus\<close>, which logs every frame
  it recognises and returns the bytes it could not yet use.

  Bytes are \<open>8 word\<close> (the elements of a bytearray are the integers 0..255); every other
  number of the source is an unbounded Python int, here \<open>nat\<close> since none is negative.
\<close>

type_synonym byte = "8 word"

subsection \<open>calcCRC16\<close>

definition crc_hi_table :: "byte list" where
  "crc_hi_table =
    [0x00, 0xC1, 0x81, 0x40, 0x01, 0xC0, 0x80, 0x41, 0x01, 0xC0,
     0x80, 0x41, 0x00, 0xC1, 0x81, 0x40, 0x01, 0xC0, 0x80, 0x41,
     0x00, 0xC1, 0x81, 0x40, 0x00, 0xC1, 0x81, 0x40, 0x01, 0xC0,
     0x80, 0x41, 0x01, 0xC0, 0x80, 0x41, 0x00, 0xC1, 0x81, 0x40,
     0x00, 0xC1, 0x81, 0x40, 0x01, 0xC0, 0x80, 0x41, 0x00, 0xC1,
     0x81, 0x40, 0x01, 0xC0, 0x80, 0x41, 0x01, 0xC0, 0x80, 0x41,
     0x00, 0xC1, 0x81, 0x40, 0x01, 0xC0, 0x80, 0x41, 0x00, 0xC1,
     0x81, 0x40, 0x00, 0xC1, 0x81, 0x40, 0x01, 0xC0, 0x80, 0x41,
     0x00, 0xC1, 0x81, 0x40, 0x01, 0xC0, 0x80, 0x41, 0x01, 0xC0,
     0x80, 0x41, 0x00, 0xC1, 0x81, 0x40, 0x00, 0xC1, 0x81, 0x40,
     0x01, 0xC0, 0x80, 0x41, 0x01, 0xC0, 0x80, 0x41, 0x00, 0xC1,
     0x81, 0x40, 0x01, 0xC0, 0x80, 0x41, 0x00, 0xC1, 0x81, 0x40,
     0x00, 0xC1, 0x81, 0x40, 0x01, 0xC0, 0x80, 0x41, 0x01, 0xC0,
     0x80, 0x41, 0x00, 0xC1, 0x81, 0x40, 0x00, 0xC1, 0x81, 0x40,
     0x01, 0xC0, 0x80, 0x41, 0x00, 0xC1, 0x81, 0x40, 0x01, 0xC0,
     0x80, 0x41, 0x01, 0xC0, 0x80, 0x41, 0x00, 0xC1, 0x81, 0x40,
     0x00, 0xC1, 0x81, 0x40, 0x01, 0xC0, 0x80, 0x41, 0x01, 0xC0,
     0x80, 0x41, 0x00, 0xC1, 0x81, 0x40, 0x01, 0xC0, 0x80, 0x41,
     0x00, 0xC1, 0x81, 0x40, 0x00, 0xC1, 0x81, 0x40, 0x01, 0xC0,
     0x80, 0x41, 0x00, 0xC1, 0x81, 0x40, 0x01, 0xC0, 0x80, 0x41,
     0x01, 0xC0, 0x80, 0x41, 0x00, 0xC1, 0x81, 0x40, 0x01, 0xC0,
     0x80, 0x41, 0x00, 0xC1, 0x81, 0x40, 0x00, 0xC1, 0x81, 0x40,
     0x01, 0xC0, 0x80, 0x41, 0x01, 0xC0, 0x80, 0x41, 0x00, 0xC1,
     0x81, 0x40, 0x00, 0xC1, 0x81, 0x40, 0x01, 0xC0, 0x80, 0x41,
     0x00, 0xC1, 0x81, 0x40, 0x01, 0xC0, 0x80, 0x41, 0x01, 0xC0,
     0x80, 0x41, 0x00, 0xC1, 0x81, 0x40]"

definition crc_lo_table :: "byte list" where
  "crc_lo_table =
    [0x00, 0xC0, 0xC1, 0x01, 0xC3, 0x03, 0x02, 0xC2, 0xC6, 0x06,
     0x07, 0xC7, 0x05, 0xC5, 0xC4, 0x04, 0xCC, 0x0C, 0x0D, 0xCD,
     0x0F, 0xCF, 0xCE, 0x0E, 0x0A, 0xCA, 0xCB, 0x0B, 0xC9, 0x09,
     0x08, 0xC8, 0xD8, 0x18, 0x19, 0xD9, 0x1B, 0xDB, 0xDA, 0x1A,
     0x1E, 0xDE, 0xDF, 0x1F, 0xDD, 0x1D, 0x1C, 0xDC, 0x14, 0xD4,
     0xD5, 0x15, 0xD7, 0x17, 0x16, 0xD6, 0xD2, 0x12, 0x13, 0xD3,
     0x11, 0xD1, 0xD0, 0x10, 0xF0, 0x30, 0x31, 0xF1, 0x33, 0xF3,
     0xF2, 0x32, 0x36, 0xF6, 0xF7, 0x37, 0xF5, 0x35, 0x34, 0xF4,
     0x3C, 0xFC, 0xFD, 0x3D, 0xFF, 0x3F, 0x3E, 0xFE, 0xFA, 0x3A,
     0x3B, 0xFB, 0x39, 0xF9, 0xF8, 0x38, 0x28, 0xE8, 0xE9, 0x29,
     0xEB, 0x2B, 0x2A, 0xEA, 0xEE, 0x2E, 0x2F, 0xEF, 0x2D, 0xED,
     0xEC, 0x2C, 0xE4, 0x24, 0x25, 0xE5, 0x27, 0xE7, 0xE6, 0x26,
     0x22, 0xE2, 0xE3, 0x23, 0xE1, 0x21, 0x20, 0xE0, 0xA0, 0x60,
     0x61, 0xA1, 0x63, 0xA3, 0xA2, 0x62, 0x66, 0xA6, 0xA7, 0x67,
     0xA5, 0x65, 0x64, 0xA4, 0x6C, 0xAC, 0xAD, 0x6D, 0xAF, 0x6F,
     0x6E, 0xAE, 0xAA, 0x6A, 0x6B, 0xAB, 0x69, 0xA9, 0xA8, 0x68,
     0x78, 0xB8, 0xB9, 0x79, 0xBB, 0x7B, 0x7A, 0xBA, 0xBE, 0x7E,
     0x7F, 0xBF, 0x7D, 0xBD, 0xBC, 0x7C, 0xB4, 0x74, 0x75, 0xB5,
     0x77, 0xB7, 0xB6, 0x76, 0x72, 0xB2, 0xB3, 0x73, 0xB1, 0x71,
     0x70, 0xB0, 0x50, 0x90, 0x91, 0x51, 0x93, 0x53, 0x52, 0x92,
     0x96, 0x56, 0x57, 0x97, 0x55, 0x95, 0x94, 0x54, 0x9C, 0x5C,
     0x5D, 0x9D, 0x5F, 0x9F, 0x9E, 0x5E, 0x5A, 0x9A, 0x9B, 0x5B,
     0x99, 0x59, 0x58, 0x98, 0x88, 0x48, 0x49, 0x89, 0x4B, 0x8B,
     0x8A, 0x4A, 0x4E, 0x8E, 0x8F, 0x4F, 0x8D, 0x4D, 0x4C, 0x8C,
     0x44, 0x84, 0x85, 0x45, 0x87, 0x47, 0x46, 0x86, 0x82, 0x42,
     0x43, 0x83, 0x41, 0x81, 0x80, 0x40]"

text \<open>
  One round of the \<^verbatim>\<open>while index < size\<close> loop of \<^verbatim>\<open>calcCRC16\<close>:
  \<^verbatim>\<open>crc = crc_hi ^ data[index]; crc_hi = crc_lo ^ crc_hi_table[crc]; crc_lo = crc_lo_table[crc]\<close>.
  The index \<open>crc\<close> is a byte, and both tables have 256 entries.
\<close>

definition crc_round :: "byte \<times> byte \<Rightarrow> byte \<Rightarrow> byte \<times> byte" where
  "crc_round s b =
     (case s of (crc_hi, crc_lo) \<Rightarrow>
        let crc = crc_hi XOR b
        in (crc_lo XOR crc_hi_table ! unat crc, crc_lo_table ! unat crc))"

text \<open>
  \<^verbatim>\<open>calcCRC16(data, size)\<close> runs the round over \<^verbatim>\<open>data[0] .. data[size - 1]\<close>, starting from
  \<^verbatim>\<open>crc_hi = crc_lo = 0xFF\<close>, and returns \<^verbatim>\<open>crc_hi * 0x0100 + crc_lo\<close>. Every call in
  \<^verbatim>\<open>decode_modbus\<close> passes the index of the checksum field of a frame whose length check
  has succeeded, so \<open>size \<le> length data\<close> there and no read is out of range.
\<close>

definition calcCRC16 :: "byte list \<Rightarrow> nat \<Rightarrow> nat" where
  "calcCRC16 data_in size_in =
     (case foldl crc_round (0xFF, 0xFF) (take size_in data_in) of
        (crc_hi, crc_lo) \<Rightarrow> unat crc_hi * 0x0100 + unat crc_lo)"

subsection \<open>What the decoder logs\<close>

text \<open>
  \<^verbatim>\<open>decode_modbus\<close> reports through \<^verbatim>\<open>log.info\<close>. A line starting with \<^verbatim>\<open>Master\<close> is a
  request, one starting with \<^verbatim>\<open>Slave\<close> a response or an exception; the values formatted
  into the line are kept as they are passed to \<^verbatim>\<open>format\<close>: the unit identifier, the
  function code byte as read from the buffer, and the fields of the shape.
\<close>

datatype fields =
    ReadAddressQuantity nat nat
  | ReadByteCountData nat "byte list"
  | WriteAddressData nat "byte list"
  | WriteAddress nat
  | WriteAddressQuantityData nat nat "byte list"
  | WriteAddressQuantity nat nat
  | ReadWriteMultiple nat nat nat nat "byte list"

datatype frame =
    Request byte byte fields
  | Response byte byte fields
  | Exception byte byte byte

text \<open>
  A log entry is either the line \<^verbatim>\<open>Warning : Ignoring data: [..]\<close> with the bytes
  collected in \<^verbatim>\<open>self.trash_data_f\<close>, or a decoded frame. The second argument of
  \<open>Decoded\<close> is the slice \<^verbatim>\<open>modbus_data[:buffer_index]\<close> that the frame was read from
  and that is cut off the buffer; the source does not print it, it is recorded here so
  that theorems can speak about the bytes of a frame.
\<close>

datatype entry = Ignoring "byte list" | Decoded frame "byte list"

fun span :: "entry \<Rightarrow> byte list" where
  "span (Ignoring bs) = bs"
| "span (Decoded fr bs) = bs"

fun is_exception :: "entry \<Rightarrow> bool" where
  "is_exception (Decoded (Exception u fc c) bs) = True"
| "is_exception e = False"

fun is_response :: "entry \<Rightarrow> bool" where
  "is_response (Decoded (Response u fc fs) bs) = True"
| "is_response e = False"

fun is_request :: "entry \<Rightarrow> bool" where
  "is_request (Decoded (Request u fc fs) bs) = True"
| "is_request e = False"

subsection \<open>State\<close>

text \<open>
  The attributes of \<^verbatim>\<open>SerialSnooper\<close> that the decoder uses, and the log. The source
  keeps \<^verbatim>\<open>trash_data_f\<close> as the text of the warning line under construction; the model
  keeps the bytes that have been formatted into it.
\<close>

record snooper =
  data :: "byte list"
  trash_data :: bool
  trash_data_f :: "byte list"
  logged :: "entry list"

text \<open>The local variables of \<^verbatim>\<open>decode_modbus\<close> that live across statements.\<close>

record decoding = snooper +
  modbus_data :: "byte list"
  request :: bool
  response :: bool
  error :: bool
  need_more_data :: bool

definition SerialSnooper :: snooper where
  "SerialSnooper = \<lparr>data = [], trash_data = False, trash_data_f = [], logged = []\<rparr>"

subsection \<open>decode_modbus\<close>

text \<open>
  Every round of the loop fetches \<^verbatim>\<open>id_format\<close> from the configuration. It is only
  spliced into the text of the log lines, in front of the unit identifier; the model
  takes the configuration file to be present with its \<^verbatim>\<open>slaveIdFormat\<close> entry, so that
  this call and the formatting of a line do not raise.
\<close>

text \<open>
  \<^verbatim>\<open>buffer_index\<close> is 0 whenever the head of the \<^verbatim>\<open>while True\<close> loop is reached: it
  starts at 0, and every path that goes round the loop ends with
  \<^verbatim>\<open>modbus_data = modbus_data[buffer_index:]; buffer_index = 0\<close>. So \<^verbatim>\<open>frame_start_index\<close> is 0
  in every iteration and the model reads a frame from the front of \<open>modbus_data\<close>.
\<close>

text \<open>\<^verbatim>\<open>(modbus_data[i] * 0x0100) + modbus_data[i + 1]\<close>\<close>

definition word_at :: "byte list \<Rightarrow> nat \<Rightarrow> nat" where
  "word_at d i = unat (d ! i) * 0x0100 + unat (d ! (i + 1))"

text \<open>
  \<^verbatim>\<open>crc16 == met_crc16\<close>, with the checksum field at \<^verbatim>\<open>buffer_index\<close> and the checksum
  computed over the bytes before it.
\<close>

definition crc_matches :: "byte list \<Rightarrow> nat \<Rightarrow> bool" where
  "crc_matches d buffer_index = (word_at d buffer_index = calcCRC16 d buffer_index)"

text \<open>
  The statements every shape runs when its checksum matches: close an open warning
  line and log it, set the three flags, log the frame, cut the frame off the buffer.
  (Appending \<^verbatim>\<open>"]"\<close> to the warning line adds no byte to it.)
\<close>

datatype kind = IsRequest | IsResponse | IsError

definition close_trash :: "decoding \<Rightarrow> decoding" where
  "close_trash it =
     (if trash_data it
      then it\<lparr>trash_data := False, logged := logged it @ [Ignoring (trash_data_f it)]\<rparr>
      else it)"

definition accept :: "kind \<Rightarrow> frame \<Rightarrow> nat \<Rightarrow> decoding \<Rightarrow> decoding" where
  "accept k fr buffer_index it =
     (let it1 = close_trash it
      in it1\<lparr>request := (k = IsRequest), response := (k = IsResponse), error := (k = IsError),
             logged := logged it1 @ [Decoded fr (take buffer_index (modbus_data it))],
             modbus_data := drop buffer_index (modbus_data it)\<rparr>)"

text \<open>
  A shape of fixed size: one length test, then the checksum at the last two bytes.
  Too few bytes set \<^verbatim>\<open>need_more_data\<close>; a wrong checksum changes nothing.
\<close>

definition fixed_shape :: "nat \<Rightarrow> kind \<Rightarrow> (byte list \<Rightarrow> frame) \<Rightarrow> decoding \<Rightarrow> decoding" where
  "fixed_shape expected_length k mk it =
     (let d = modbus_data it
      in if length d \<ge> expected_length then
           (if crc_matches d (expected_length - 2) then accept k (mk d) expected_length it
            else it)
         else it\<lparr>need_more_data := True\<rparr>)"

text \<open>
  A shape with a byte count: a first length test against the smallest size the source
  expects, then the count byte is read at \<open>count_index\<close> and the length is tested
  again against \<open>base + count\<close>; the data bytes follow the count byte and the checksum
  follows the data.
\<close>

definition counted_shape ::
  "nat \<Rightarrow> nat \<Rightarrow> nat \<Rightarrow> kind \<Rightarrow> (byte list \<Rightarrow> frame) \<Rightarrow> decoding \<Rightarrow> decoding" where
  "counted_shape min_length count_index base k mk it =
     (let d = modbus_data it
      in if length d \<ge> min_length then
           (let byte_count = unat (d ! count_index);
                expected_length = base + byte_count
            in if length d \<ge> expected_length then
                 (if crc_matches d (expected_length - 2)
                  then accept k (mk d) expected_length it
                  else it)
               else it\<lparr>need_more_data := True\<rparr>)
         else it\<lparr>need_more_data := True\<rparr>)"

text \<open>The values each branch passes to \<^verbatim>\<open>format\<close>, read from the buffer \<open>d\<close>.\<close>

definition read_request :: "byte list \<Rightarrow> frame" where
  "read_request d = Request (d ! 0) (d ! 1) (ReadAddressQuantity (word_at d 2) (word_at d 4))"

definition read_response :: "byte list \<Rightarrow> frame" where
  "read_response d =
     Response (d ! 0) (d ! 1) (ReadByteCountData (unat (d ! 2)) (take (unat (d ! 2)) (drop 3 d)))"

definition write_single_request :: "byte list \<Rightarrow> frame" where
  "write_single_request d = Request (d ! 0) (d ! 1) (WriteAddressData (word_at d 2) [d ! 4, d ! 5])"

definition write_coil_response :: "byte list \<Rightarrow> frame" where
  "write_coil_response d = Response (d ! 0) (d ! 1) (WriteAddress (word_at d 2))"

definition write_register_response :: "byte list \<Rightarrow> frame" where
  "write_register_response d =
     Response (d ! 0) (d ! 1) (WriteAddressData (word_at d 2) [d ! 4, d ! 5])"

definition write_multiple_request :: "byte list \<Rightarrow> frame" where
  "write_multiple_request d =
     Request (d ! 0) (d ! 1)
       (WriteAddressQuantityData (word_at d 2) (word_at d 4) (take (unat (d ! 6)) (drop 7 d)))"

definition write_multiple_response :: "byte list \<Rightarrow> frame" where
  "write_multiple_response d =
     Response (d ! 0) (d ! 1) (WriteAddressQuantity (word_at d 2) (word_at d 4))"

text \<open>
  For function code 23 the source passes \<^verbatim>\<open>read_address, write_address, read_quantity,
  write_quantity\<close> in this order.
\<close>

definition read_write_request :: "byte list \<Rightarrow> frame" where
  "read_write_request d =
     Request (d ! 0) (d ! 1)
       (ReadWriteMultiple (word_at d 2) (word_at d 6) (word_at d 4) (word_at d 8)
          (take (unat (d ! 10)) (drop 11 d)))"

definition exception_frame :: "byte list \<Rightarrow> frame" where
  "exception_frame d = Exception (d ! 0) (d ! 1) (d ! 2)"

text \<open>\<^verbatim>\<open>if request is False:\<close> and \<^verbatim>\<open>if (request is False) & (response is False):\<close>\<close>

definition unless_request :: "(decoding \<Rightarrow> decoding) \<Rightarrow> decoding \<Rightarrow> decoding" where
  "unless_request block it = (if request it then it else block it)"

definition unless_decoded :: "(decoding \<Rightarrow> decoding) \<Rightarrow> decoding \<Rightarrow> decoding" where
  "unless_decoded block it = (if request it \<or> response it then it else block it)"

text \<open>
  The \<^verbatim>\<open>if\<close>/\<^verbatim>\<open>elif\<close> chain on the function code: each branch tries the request shape of
  the code first and then, unless the request was recognised, its response shape.
  The branch of function code 16 tries a third shape, the five bytes of an exception,
  unless a request or a response was recognised. The branches are those of the source,
  in its order: codes 1 and 2 (lines 134 to 212), 3 and 4 (215 to 291), 5 (294 to 354),
  6 (357 to 426), 15 (441 to 518), 16 (521 to 626), 23 (641 to 732) and the codes from
  \<open>0x80\<close> on (741 to 768); any other code falls through with no flag set. The numbers
  passed to a shape are the \<^verbatim>\<open>expected_length\<close> values of its block, the index of its
  count byte and the constant added to the count.
\<close>

definition try_shapes :: "byte \<Rightarrow> decoding \<Rightarrow> decoding" where
  "try_shapes function_code it =
     (if function_code = 1 \<or> function_code = 2 then
        unless_request (counted_shape 7 2 5 IsResponse read_response)
          (fixed_shape 8 IsRequest read_request it)
      else if function_code = 3 \<or> function_code = 4 then
        unless_request (counted_shape 7 2 5 IsResponse read_response)
          (fixed_shape 8 IsRequest read_request it)
      else if function_code = 5 then
        unless_request (fixed_shape 6 IsResponse write_coil_response)
          (fixed_shape 8 IsRequest write_single_request it)
      else if function_code = 6 then
        unless_request (fixed_shape 8 IsResponse write_register_response)
          (fixed_shape 8 IsRequest write_single_request it)
      else if function_code = 15 then
        unless_request (fixed_shape 8 IsResponse write_multiple_response)
          (counted_shape 10 6 9 IsRequest write_multiple_request it)
      else if function_code = 16 then
        unless_decoded (fixed_shape 5 IsError exception_frame)
          (unless_request (fixed_shape 8 IsResponse write_multiple_response)
             (counted_shape 11 6 9 IsRequest write_multiple_request it))
      else if function_code = 23 then
        unless_request (counted_shape 7 2 5 IsResponse read_response)
          (counted_shape 15 10 13 IsRequest read_write_request it)
      else if function_code \<ge> 0x80 then
        fixed_shape 5 IsError exception_frame it
      else it)"

text \<open>
  The body of the loop up to the test of \<^verbatim>\<open>need_more_data\<close>: the flags are reset, and
  with at least three bytes in the buffer the function code, its second byte, selects
  the shapes to try; with fewer the decoder asks for more data.
\<close>

definition fresh :: "decoding \<Rightarrow> decoding" where
  "fresh it0 = it0\<lparr>request := False, response := False, error := False, need_more_data := False\<rparr>"

definition decode_frame :: "decoding \<Rightarrow> decoding" where
  "decode_frame it0 =
     (let it = fresh it0
      in if length (modbus_data it) > 2 then try_shapes (modbus_data it ! 1) it
         else it\<lparr>need_more_data := True\<rparr>)"

text \<open>
  The last branch of the loop: no shape matched and none asked for more data. The
  first byte of the buffer goes to the warning line (a new line if none is open) and
  is cut off the buffer.
\<close>

definition ignore_byte :: "decoding \<Rightarrow> decoding" where
  "ignore_byte it =
     it\<lparr>trash_data := True,
        trash_data_f := (if trash_data it then trash_data_f it @ [modbus_data it ! 0]
                         else [modbus_data it ! 0]),
        modbus_data := drop 1 (modbus_data it)\<rparr>"

text \<open>
  The loop: \<^verbatim>\<open>if need_more_data: return modbus_data\<close>, else the noise branch when no flag
  is set, else round again. The returned record holds the returned buffer in
  \<open>modbus_data\<close>.
\<close>

function decode_modbus :: "decoding \<Rightarrow> decoding" where
  "decode_modbus it0 =
     (let it = decode_frame it0
      in if need_more_data it then it
         else if \<not> request it \<and> \<not> response it \<and> \<not> error it
              then decode_modbus (ignore_byte it)
              else decode_modbus it)"
  by pat_completeness auto

subsection \<open>process_data\<close>

text \<open>
  \<^verbatim>\<open>self.decode_modbus(self.data)\<close> starts with \<^verbatim>\<open>modbus_data = input_data\<close>; its result is
  assigned to \<^verbatim>\<open>self.data\<close>.
\<close>

definition enter :: "snooper \<Rightarrow> byte list \<Rightarrow> decoding" where
  "enter self input_data =
     \<lparr>data = data self, trash_data = trash_data self, trash_data_f = trash_data_f self,
      logged = logged self, modbus_data = input_data, request = False, response = False,
      error = False, need_more_data = False\<rparr>"

definition leave :: "decoding \<Rightarrow> snooper" where
  "leave it =
     \<lparr>data = modbus_data it, trash_data = trash_data it, trash_data_f = trash_data_f it,
      logged = logged it\<rparr>"

text \<open>
  An empty chunk (the read timed out) runs the decoder if more than two bytes are
  buffered, and appends nothing; any other chunk is appended to the buffer and the
  decoder is not called.
\<close>

definition process_data :: "snooper \<Rightarrow> byte list \<Rightarrow> snooper" where
  "process_data self data_to_process =
     (if length data_to_process \<le> 0 then
        (if length (data self) > 2 then leave (decode_modbus (enter self (data self)))
         else self)
      else self\<lparr>data := data self @ data_to_process\<rparr>)"

text \<open>The calls of the main loop, one per read, from a new sniffer.\<close>

definition feed :: "byte list list \<Rightarrow> snooper" where
  "feed chunks = foldl process_data SerialSnooper chunks"

subsection \<open>calculate_timeout\<close>

text \<open>
  \<^verbatim>\<open>calculate_timeout(configured_baud_rate)\<close>: the baud rate is the \<^verbatim>\<open>int\<close> parsed from the
  command line; \<^verbatim>\<open>33 / configured_baud_rate\<close> is Python's true division, which raises
  \<^verbatim>\<open>ZeroDivisionError\<close> for 0. The float result is modelled by the real number it stands
  for.
\<close>

datatype py_error = ZeroDivisionError

definition calculate_timeout :: "int \<Rightarrow> py_error + real" where
  "calculate_timeout configured_baud_rate =
     (if configured_baud_rate < 19200 then
        (if configured_baud_rate = 0 then Inl ZeroDivisionError
         else Inr (33 / of_int configured_baud_rate))
      else Inr 0.001750)"

section \<open>One round of the loop\<close>

text \<open>
  What a shape, and so a round, can do to the state: nothing but possibly asking for
  more data (\<open>no_emit\<close>), or logging one frame of \<open>n\<close> bytes after closing the warning
  line and cutting the frame off the buffer (\<open>emit_as\<close>).
\<close>

definition no_emit :: "decoding \<Rightarrow> decoding \<Rightarrow> bool" where
  "no_emit it it' =
     (modbus_data it' = modbus_data it \<and> logged it' = logged it \<and>
      trash_data it' = trash_data it \<and> trash_data_f it' = trash_data_f it \<and>
      data it' = data it \<and> request it' = request it \<and> response it' = response it \<and>
      error it' = error it)"

definition emit_as :: "kind \<Rightarrow> frame \<Rightarrow> nat \<Rightarrow> decoding \<Rightarrow> decoding \<Rightarrow> bool" where
  "emit_as k fr n it it' =
     (modbus_data it' = drop n (modbus_data it) \<and>
      logged it' = logged it @ (if trash_data it then [Ignoring (trash_data_f it)] else [])
                     @ [Decoded fr (take n (modbus_data it))] \<and>
      \<not> trash_data it' \<and> trash_data_f it' = trash_data_f it \<and> data it' = data it \<and>
      request it' = (k = IsRequest) \<and> response it' = (k = IsResponse) \<and>
      error it' = (k = IsError))"

definition emits :: "kind \<Rightarrow> decoding \<Rightarrow> decoding \<Rightarrow> bool" where
  "emits k it it' = (\<exists>fr n. 5 \<le> n \<and> n \<le> length (modbus_data it) \<and> emit_as k fr n it it')"

definition step_ok :: "decoding \<Rightarrow> decoding \<Rightarrow> bool" where
  "step_ok it it' =
     (no_emit it it' \<or> emits IsRequest it it' \<or> emits IsResponse it it' \<or> emits IsError it it')"

subsection \<open>Notions used to state the properties\<close>

text \<open>
  The bytes of an open warning line: those collected in \<^verbatim>\<open>trash_data_f\<close> while
  \<^verbatim>\<open>trash_data\<close> is set. (After the line has been logged \<^verbatim>\<open>trash_data_f\<close> keeps its
  text until the next line is started, but the flag is off.)
\<close>

definition open_noise :: "bool \<Rightarrow> byte list \<Rightarrow> byte list" where
  "open_noise t f = (if t then f else [])"

text \<open>
  All bytes a state accounts for, in stream order: the spans of the log entries, the
  open warning line, the buffer.
\<close>

definition accounted :: "decoding \<Rightarrow> byte list" where
  "accounted it =
     concat (map span (logged it)) @ open_noise (trash_data it) (trash_data_f it) @ modbus_data it"

definition account :: "snooper \<Rightarrow> byte list" where
  "account self =
     concat (map span (logged self)) @ open_noise (trash_data self) (trash_data_f self) @ data self"

text \<open>
  The request shape of the function code in the buffer cannot be tested yet: the
  length test of the request block of its branch, or for a counted request the second
  length test, fails.
\<close>

definition request_short :: "byte list \<Rightarrow> bool" where
  "request_short d =
     (let function_code = d ! 1
      in ((function_code = 1 \<or> function_code = 2 \<or> function_code = 3 \<or> function_code = 4 \<or>
           function_code = 5 \<or> function_code = 6) \<and> length d < 8)
       \<or> (function_code = 15 \<and> (length d < 10 \<or> length d < 9 + unat (d ! 6)))
       \<or> (function_code = 16 \<and> (length d < 11 \<or> length d < 9 + unat (d ! 6)))
       \<or> (function_code = 23 \<and> (length d < 15 \<or> length d < 13 + unat (d ! 10))))"

text \<open>
  The function codes that have a branch with a request and a response shape, and, read
  off these branches, for the buffer \<open>d\<close>: whether the request shape of its function
  code is recognised (the length tests of the request block pass and the checksum
  matches), whether it is fully tested with a wrong checksum, the frame and the
  length of the request, and the same for the response block of the branch.
\<close>

definition supported :: "byte \<Rightarrow> bool" where
  "supported function_code =
     (function_code = 1 \<or> function_code = 2 \<or> function_code = 3 \<or> function_code = 4 \<or>
      function_code = 5 \<or> function_code = 6 \<or> function_code = 15 \<or> function_code = 16 \<or>
      function_code = 23)"

definition request_matches :: "byte list \<Rightarrow> bool" where
  "request_matches d =
     (let function_code = d ! 1
      in ((function_code = 1 \<or> function_code = 2 \<or> function_code = 3 \<or> function_code = 4 \<or>
           function_code = 5 \<or> function_code = 6) \<and> 8 \<le> length d \<and> crc_matches d 6)
       \<or> (function_code = 15 \<and> 10 \<le> length d \<and> 9 + unat (d ! 6) \<le> length d \<and>
            crc_matches d (7 + unat (d ! 6)))
       \<or> (function_code = 16 \<and> 11 \<le> length d \<and> 9 + unat (d ! 6) \<le> length d \<and>
            crc_matches d (7 + unat (d ! 6)))
       \<or> (function_code = 23 \<and> 15 \<le> length d \<and> 13 + unat (d ! 10) \<le> length d \<and>
            crc_matches d (11 + unat (d ! 10))))"

definition request_mismatched :: "byte list \<Rightarrow> bool" where
  "request_mismatched d =
     (let function_code = d ! 1
      in ((function_code = 1 \<or> function_code = 2 \<or> function_code = 3 \<or> function_code = 4 \<or>
           function_code = 5 \<or> function_code = 6) \<and> 8 \<le> length d \<and> \<not> crc_matches d 6)
       \<or> (function_code = 15 \<and> 10 \<le> length d \<and> 9 + unat (d ! 6) \<le> length d \<and>
            \<not> crc_matches d (7 + unat (d ! 6)))
       \<or> (function_code = 16 \<and> 11 \<le> length d \<and> 9 + unat (d ! 6) \<le> length d \<and>
            \<not> crc_matches d (7 + unat (d ! 6)))
       \<or> (function_code = 23 \<and> 15 \<le> length d \<and> 13 + unat (d ! 10) \<le> length d \<and>
            \<not> crc_matches d (11 + unat (d ! 10))))"

definition request_frame :: "byte list \<Rightarrow> frame" where
  "request_frame d =
     (let function_code = d ! 1
      in if function_code = 1 \<or> function_code = 2 \<or> function_code = 3 \<or> function_code = 4
         then read_request d
         else if function_code = 5 \<or> function_code = 6 then write_single_request d
         else if function_code = 15 \<or> function_code = 16 then write_multiple_request d
         else read_write_request d)"

definition request_length :: "byte list \<Rightarrow> nat" where
  "request_length d =
     (let function_code = d ! 1
      in if function_code = 15 \<or> function_code = 16 then 9 + unat (d ! 6)
         else if function_code = 23 then 13 + unat (d ! 10)
         else 8)"

definition response_matches :: "byte list \<Rightarrow> bool" where
  "response_matches d =
     (let function_code = d ! 1
      in ((function_code = 1 \<or> function_code = 2 \<or> function_code = 3 \<or> function_code = 4 \<or>
           function_code = 23) \<and> 7 \<le> length d \<and> 5 + unat (d ! 2) \<le> length d \<and>
           crc_matches d (3 + unat (d ! 2)))
       \<or> (function_code = 5 \<and> 6 \<le> length d \<and> crc_matches d 4)
       \<or> ((function_code = 6 \<or> function_code = 15 \<or> function_code = 16) \<and> 8 \<le> length d \<and>
            crc_matches d 6))"

definition response_frame :: "byte list \<Rightarrow> frame" where
  "response_frame d =
     (let function_code = d ! 1
      in if function_code = 5 then write_coil_response d
         else if function_code = 6 then write_register_response d
         else if function_code = 15 \<or> function_code = 16 then write_multiple_response d
         else read_response d)"

definition response_length :: "byte list \<Rightarrow> nat" where
  "response_length d =
     (let function_code = d ! 1
      in if function_code = 5 then 6
         else if function_code = 6 \<or> function_code = 15 \<or> function_code = 16 then 8
         else 5 + unat (d ! 2))"

definition response_short :: "byte list \<Rightarrow> bool" where
  "response_short d =
     (let function_code = d ! 1
      in ((function_code = 1 \<or> function_code = 2 \<or> function_code = 3 \<or> function_code = 4 \<or>
           function_code = 23) \<and> (length d < 7 \<or> length d < 5 + unat (d ! 2)))
       \<or> (function_code = 5 \<and> length d < 6)
       \<or> ((function_code = 6 \<or> function_code = 15 \<or> function_code = 16) \<and> length d < 8))"

text \<open>A round that logs no exception and leaves the \<^verbatim>\<open>error\<close> flag off.\<close>

definition quiet :: "decoding \<Rightarrow> decoding \<Rightarrow> bool" where
  "quiet it it' =
     (filter is_exception (logged it') = filter is_exception (logged it) \<and> \<not> error it')"

section \<open>Lemmas about one round and the loop\<close>

lemma accept_emit_as: "emit_as k fr n it (accept k fr n it)"
  by (simp add: emit_as_def accept_def close_trash_def Let_def)

lemma fixed_shape_cases:
  "no_emit it (fixed_shape n k mk it) \<or>
   (n \<le> length (modbus_data it) \<and> crc_matches (modbus_data it) (n - 2) \<and>
    fixed_shape n k mk it = accept k (mk (modbus_data it)) n it)"
  by (simp add: fixed_shape_def Let_def no_emit_def)

lemma counted_shape_cases:
  "no_emit it (counted_shape m c b k mk it) \<or>
   (m \<le> length (modbus_data it) \<and> b + unat (modbus_data it ! c) \<le> length (modbus_data it) \<and>
    crc_matches (modbus_data it) (b + unat (modbus_data it ! c) - 2) \<and>
    counted_shape m c b k mk it = accept k (mk (modbus_data it)) (b + unat (modbus_data it ! c)) it)"
  by (simp add: counted_shape_def Let_def no_emit_def)

lemma fixed_shape_step:
  assumes "5 \<le> n"
  shows "no_emit it (fixed_shape n k mk it) \<or> emits k it (fixed_shape n k mk it)"
proof (cases "no_emit it (fixed_shape n k mk it)")
  case True
  then show ?thesis by simp
next
  case False
  with fixed_shape_cases [of it n k mk]
  have len: "n \<le> length (modbus_data it)"
    and eq: "fixed_shape n k mk it = accept k (mk (modbus_data it)) n it"
    by simp_all
  have "emit_as k (mk (modbus_data it)) n it (fixed_shape n k mk it)"
    unfolding eq by (rule accept_emit_as)
  with assms len show ?thesis unfolding emits_def by blast
qed

lemma counted_shape_step:
  assumes "5 \<le> b"
  shows "no_emit it (counted_shape m c b k mk it) \<or> emits k it (counted_shape m c b k mk it)"
proof (cases "no_emit it (counted_shape m c b k mk it)")
  case True
  then show ?thesis by simp
next
  case False
  let ?n = "b + unat (modbus_data it ! c)"
  from False counted_shape_cases [of it m c b k mk]
  have len: "?n \<le> length (modbus_data it)"
    and eq: "counted_shape m c b k mk it = accept k (mk (modbus_data it)) ?n it"
    by simp_all
  have "emit_as k (mk (modbus_data it)) ?n it (counted_shape m c b k mk it)"
    unfolding eq by (rule accept_emit_as)
  moreover from assms have "5 \<le> ?n" by simp
  ultimately show ?thesis using len unfolding emits_def by blast
qed

lemma no_emit_trans: "no_emit a b \<Longrightarrow> no_emit b c \<Longrightarrow> no_emit a c"
  by (simp add: no_emit_def)

lemma no_emit_emit_as: "no_emit a b \<Longrightarrow> emit_as k fr n b c \<Longrightarrow> emit_as k fr n a c"
  by (simp add: no_emit_def emit_as_def)

lemma no_emit_emits: "no_emit a b \<Longrightarrow> emits k b c \<Longrightarrow> emits k a c"
  unfolding emits_def using no_emit_emit_as by (metis no_emit_def)

lemma emits_flags:
  "emits k it it' \<Longrightarrow>
     request it' = (k = IsRequest) \<and> response it' = (k = IsResponse) \<and> error it' = (k = IsError)"
  by (auto simp: emits_def emit_as_def)

lemma unless_request_step:
  assumes "\<not> request it"
    and first: "no_emit it it1 \<or> emits IsRequest it it1"
    and second: "no_emit it1 (B it1) \<or> emits k it1 (B it1)"
  shows "no_emit it (unless_request B it1) \<or> emits IsRequest it (unless_request B it1)
           \<or> emits k it (unless_request B it1)"
proof (cases "no_emit it it1")
  case True
  with assms(1) have "\<not> request it1" by (simp add: no_emit_def)
  then have "unless_request B it1 = B it1" by (simp add: unless_request_def)
  with True second show ?thesis by (auto intro: no_emit_trans no_emit_emits)
next
  case False
  with first have e: "emits IsRequest it it1" by simp
  then have "request it1" by (simp add: emits_flags)
  then have "unless_request B it1 = it1" by (simp add: unless_request_def)
  with e show ?thesis by simp
qed

lemma unless_decoded_step:
  assumes "\<not> request it" "\<not> response it"
    and first: "no_emit it it1 \<or> emits IsRequest it it1 \<or> emits IsResponse it it1"
    and second: "no_emit it1 (B it1) \<or> emits k it1 (B it1)"
  shows "no_emit it (unless_decoded B it1) \<or> emits IsRequest it (unless_decoded B it1)
           \<or> emits IsResponse it (unless_decoded B it1) \<or> emits k it (unless_decoded B it1)"
proof (cases "no_emit it it1")
  case True
  with assms(1,2) have "\<not> request it1" "\<not> response it1" by (simp_all add: no_emit_def)
  then have "unless_decoded B it1 = B it1" by (simp add: unless_decoded_def)
  with True second show ?thesis by (auto intro: no_emit_trans no_emit_emits)
next
  case False
  with first have e: "emits IsRequest it it1 \<or> emits IsResponse it it1" by simp
  then have "request it1 \<or> response it1" by (auto simp: emits_flags)
  then have "unless_decoded B it1 = it1" by (simp add: unless_decoded_def)
  with e show ?thesis by auto
qed

lemma request_then_response:
  assumes "\<not> request it"
    and "no_emit it it1 \<or> emits IsRequest it it1"
    and "no_emit it1 (B it1) \<or> emits IsResponse it1 (B it1)"
  shows "step_ok it (unless_request B it1)"
  using unless_request_step [of it it1 B IsResponse] assms by (auto simp: step_ok_def)

lemma try_shapes_step:
  assumes "\<not> request it" "\<not> response it"
  shows "step_ok it (try_shapes fc it)"
proof -
  note req = request_then_response [OF assms(1)]
  have a: "step_ok it (unless_request (counted_shape 7 2 5 IsResponse read_response)
          (fixed_shape 8 IsRequest read_request it))"
    by (rule req) (rule fixed_shape_step counted_shape_step, simp)+
  have b: "step_ok it (unless_request (fixed_shape 6 IsResponse write_coil_response)
          (fixed_shape 8 IsRequest write_single_request it))"
    by (rule req) (rule fixed_shape_step counted_shape_step, simp)+
  have c: "step_ok it (unless_request (fixed_shape 8 IsResponse write_register_response)
          (fixed_shape 8 IsRequest write_single_request it))"
    by (rule req) (rule fixed_shape_step counted_shape_step, simp)+
  have d: "step_ok it (unless_request (fixed_shape 8 IsResponse write_multiple_response)
          (counted_shape 10 6 9 IsRequest write_multiple_request it))"
    by (rule req) (rule fixed_shape_step counted_shape_step, simp)+
  have e: "step_ok it (unless_decoded (fixed_shape 5 IsError exception_frame)
          (unless_request (fixed_shape 8 IsResponse write_multiple_response)
             (counted_shape 11 6 9 IsRequest write_multiple_request it)))"
    unfolding step_ok_def
    using assms by (intro unless_decoded_step unless_request_step
          fixed_shape_step counted_shape_step) simp_all
  have f: "step_ok it (unless_request (counted_shape 7 2 5 IsResponse read_response)
          (counted_shape 15 10 13 IsRequest read_write_request it))"
    by (rule req) (rule fixed_shape_step counted_shape_step, simp)+
  have g: "step_ok it (fixed_shape 5 IsError exception_frame it)"
    using fixed_shape_step [of 5 it IsError exception_frame] by (auto simp: step_ok_def)
  have h: "step_ok it it" by (simp add: step_ok_def no_emit_def)
  show ?thesis
    unfolding try_shapes_def using a b c d e f g h by presburger
qed

lemma decode_frame_step: "step_ok (fresh it0) (decode_frame it0)"
proof (cases "length (modbus_data it0) > 2")
  case True
  then have "decode_frame it0 = try_shapes (modbus_data it0 ! 1) (fresh it0)"
    by (simp add: decode_frame_def fresh_def Let_def)
  moreover have "\<not> request (fresh it0)" "\<not> response (fresh it0)" by (simp_all add: fresh_def)
  ultimately show ?thesis by (simp add: try_shapes_step)
next
  case False
  then have "decode_frame it0 = (fresh it0)\<lparr>need_more_data := True\<rparr>"
    by (simp add: decode_frame_def fresh_def Let_def)
  then show ?thesis by (simp add: step_ok_def no_emit_def)
qed

lemma decode_frame_short:
  "length (modbus_data it0) \<le> 2 \<Longrightarrow> decode_frame it0 = (fresh it0)\<lparr>need_more_data := True\<rparr>"
  by (simp add: decode_frame_def fresh_def Let_def)

text \<open>
  The two ways round the loop, as the termination proof and the invariants need them.
\<close>

lemma round_noise:
  assumes "\<not> need_more_data (decode_frame it0)"
    and "\<not> request (decode_frame it0) \<and> \<not> response (decode_frame it0) \<and> \<not> error (decode_frame it0)"
  shows "no_emit (fresh it0) (decode_frame it0) \<and> 2 < length (modbus_data it0)"
proof -
  from assms(2) have "\<not> emits k (fresh it0) (decode_frame it0)" for k
    using emits_flags [of k "fresh it0" "decode_frame it0"] by (cases k) auto
  with decode_frame_step [of it0] have "no_emit (fresh it0) (decode_frame it0)"
    by (simp add: step_ok_def)
  moreover have "2 < length (modbus_data it0)"
  proof (rule ccontr)
    assume "\<not> 2 < length (modbus_data it0)"
    then have "need_more_data (decode_frame it0)" by (simp add: decode_frame_short)
    with assms(1) show False by simp
  qed
  ultimately show ?thesis by simp
qed

lemma round_frame:
  assumes "request (decode_frame it0) \<or> response (decode_frame it0) \<or> error (decode_frame it0)"
  shows "\<exists>k. emits k (fresh it0) (decode_frame it0)"
proof -
  have "\<not> no_emit (fresh it0) (decode_frame it0)"
    using assms by (auto simp: no_emit_def fresh_def)
  with decode_frame_step [of it0] show ?thesis by (auto simp: step_ok_def)
qed

lemma modbus_data_fresh [simp]: "modbus_data (fresh it0) = modbus_data it0"
  by (simp add: fresh_def)

termination decode_modbus
proof (relation "measure (\<lambda>it. length (modbus_data it))")
  show "wf (measure (\<lambda>it. length (modbus_data it)))" by simp
next
  fix it0 x
  assume x: "x = decode_frame it0" and "\<not> need_more_data x"
    and "\<not> request x \<and> \<not> response x \<and> \<not> error x"
  with round_noise [of it0] have "modbus_data x = modbus_data it0" "2 < length (modbus_data it0)"
    by (simp_all add: no_emit_def)
  then show "(ignore_byte x, it0) \<in> measure (\<lambda>it. length (modbus_data it))"
    by (simp add: ignore_byte_def)
next
  fix it0 x
  assume x: "x = decode_frame it0" and "\<not> need_more_data x"
    and "\<not> (\<not> request x \<and> \<not> response x \<and> \<not> error x)"
  with round_frame [of it0] obtain k where "emits k (fresh it0) x" by auto
  then obtain n where "5 \<le> n" "n \<le> length (modbus_data it0)"
    "modbus_data x = drop n (modbus_data it0)"
    by (auto simp: emits_def emit_as_def)
  then show "(x, it0) \<in> measure (\<lambda>it. length (modbus_data it))"
    by simp
qed

declare decode_modbus.simps [simp del]

section \<open>Evaluating the decoder on concrete buffers\<close>

lemmas frame_defs = read_request_def read_response_def write_single_request_def
  write_coil_response_def write_register_response_def write_multiple_request_def
  write_multiple_response_def read_write_request_def exception_frame_def

lemmas crc_defs = crc_matches_def word_at_def calcCRC16_def crc_round_def
  crc_hi_table_def crc_lo_table_def

lemmas decode_defs = decode_frame_def fresh_def try_shapes_def fixed_shape_def
  counted_shape_def unless_request_def unless_decoded_def accept_def close_trash_def
  ignore_byte_def Let_def

lemmas feed_defs = feed_def process_data_def SerialSnooper_def enter_def leave_def

section \<open>The ways round the loop\<close>

lemma round_cases:
  "(need_more_data (decode_frame it0) \<and>
      (\<exists>n. modbus_data (decode_frame it0) = drop n (modbus_data it0)))
   \<or> (\<not> need_more_data (decode_frame it0) \<and>
       \<not> request (decode_frame it0) \<and> \<not> response (decode_frame it0) \<and>
       \<not> error (decode_frame it0) \<and> 2 < length (modbus_data it0) \<and>
       modbus_data (ignore_byte (decode_frame it0)) = drop 1 (modbus_data it0))
   \<or> (\<not> need_more_data (decode_frame it0) \<and>
       (request (decode_frame it0) \<or> response (decode_frame it0) \<or> error (decode_frame it0)) \<and>
       (\<exists>n. 5 \<le> n \<and> n \<le> length (modbus_data it0) \<and>
            modbus_data (decode_frame it0) = drop n (modbus_data it0)))"
proof -
  let ?it = "decode_frame it0"
  have suffix: "\<exists>n. modbus_data ?it = drop n (modbus_data it0)"
  proof -
    from decode_frame_step [of it0]
    consider "no_emit (fresh it0) ?it" | k where "emits k (fresh it0) ?it"
      by (auto simp: step_ok_def)
    then show ?thesis
    proof cases
      case 1
      then have "modbus_data ?it = drop 0 (modbus_data it0)" by (simp add: no_emit_def)
      then show ?thesis by blast
    next
      case 2
      then show ?thesis by (auto simp: emits_def emit_as_def)
    qed
  qed
  show ?thesis
  proof (cases "need_more_data ?it")
    case True
    with suffix show ?thesis by simp
  next
    case more: False
    show ?thesis
    proof (cases "\<not> request ?it \<and> \<not> response ?it \<and> \<not> error ?it")
      case True
      with more round_noise [of it0]
      have "modbus_data ?it = modbus_data it0" "2 < length (modbus_data it0)"
        by (simp_all add: no_emit_def)
      with more True show ?thesis by (simp add: ignore_byte_def)
    next
      case False
      with round_frame [of it0] obtain k where "emits k (fresh it0) ?it" by auto
      then have "\<exists>n. 5 \<le> n \<and> n \<le> length (modbus_data it0) \<and>
            modbus_data ?it = drop n (modbus_data it0)"
        by (auto simp: emits_def emit_as_def)
      with more False show ?thesis by simp
    qed
  qed
qed

lemma decode_modbus_return:
  "need_more_data (decode_frame it0) \<Longrightarrow> decode_modbus it0 = decode_frame it0"
  by (simp add: decode_modbus.simps [of it0] Let_def)

lemma decode_modbus_noise:
  "\<not> need_more_data (decode_frame it0) \<Longrightarrow>
   \<not> request (decode_frame it0) \<and> \<not> response (decode_frame it0) \<and> \<not> error (decode_frame it0) \<Longrightarrow>
   decode_modbus it0 = decode_modbus (ignore_byte (decode_frame it0))"
  by (simp add: decode_modbus.simps [of it0] Let_def)

lemma decode_modbus_frame:
  "\<not> need_more_data (decode_frame it0) \<Longrightarrow>
   \<not> (\<not> request (decode_frame it0) \<and> \<not> response (decode_frame it0) \<and> \<not> error (decode_frame it0)) \<Longrightarrow>
   decode_modbus it0 = decode_modbus (decode_frame it0)"
  by (subst decode_modbus.simps) (auto simp: Let_def)

lemma decode_modbus_returns:
  "need_more_data (decode_modbus it0) \<and>
   (\<exists>n. modbus_data (decode_modbus it0) = drop n (modbus_data it0))"
proof (induction it0 rule: decode_modbus.induct)
  case (1 it0)
  let ?it = "decode_frame it0"
  from round_cases [of it0]
  consider (ret) "need_more_data ?it" "\<exists>n. modbus_data ?it = drop n (modbus_data it0)"
    | (noise) "\<not> need_more_data ?it" "\<not> request ?it \<and> \<not> response ?it \<and> \<not> error ?it"
        "modbus_data (ignore_byte ?it) = drop 1 (modbus_data it0)"
    | (frame) "\<not> need_more_data ?it" "\<not> (\<not> request ?it \<and> \<not> response ?it \<and> \<not> error ?it)"
        "\<exists>n. modbus_data ?it = drop n (modbus_data it0)"
    by blast
  then show ?case
  proof cases
    case ret
    then have "decode_modbus it0 = ?it" by (simp add: decode_modbus_return)
    with ret show ?thesis by simp
  next
    case noise
    then have eq: "decode_modbus it0 = decode_modbus (ignore_byte ?it)"
      by (simp add: decode_modbus_noise)
    from "1.IH"(1) [OF refl noise(1,2)] noise(3)
    show ?thesis unfolding eq by (auto simp: drop_drop)
  next
    case frame
    then have eq: "decode_modbus it0 = decode_modbus ?it"
      by (simp add: decode_modbus_frame)
    from "1.IH"(2) [OF refl frame(1,2)] frame(3)
    show ?thesis unfolding eq by (auto simp: drop_drop)
  qed
qed

section \<open>Lemmas about the shapes of single function codes\<close>

subsection \<open>Function codes with the high bit set\<close>

lemma high_bit_not_listed:
  "(0x80::byte) \<le> fc \<Longrightarrow>
     fc \<noteq> 1 \<and> fc \<noteq> 2 \<and> fc \<noteq> 3 \<and> fc \<noteq> 4 \<and> fc \<noteq> 5 \<and> fc \<noteq> 6 \<and> fc \<noteq> 15 \<and> fc \<noteq> 16 \<and> fc \<noteq> 23"
  by (auto simp: word_le_nat_alt)

lemma try_shapes_high_bit:
  "(0x80::byte) \<le> fc \<Longrightarrow> try_shapes fc it = fixed_shape 5 IsError exception_frame it"
  using high_bit_not_listed [of fc] by (simp add: try_shapes_def)

subsection \<open>The request and the response shape of a branch\<close>

lemma fixed_shape_short:
  "length (modbus_data it) < n \<Longrightarrow> fixed_shape n k mk it = it\<lparr>need_more_data := True\<rparr>"
  by (simp add: fixed_shape_def Let_def)

lemma counted_shape_short:
  "length (modbus_data it) < m \<or> length (modbus_data it) < b + unat (modbus_data it ! c) \<Longrightarrow>
     counted_shape m c b k mk it = it\<lparr>need_more_data := True\<rparr>"
  by (auto simp: counted_shape_def Let_def)

lemma fixed_shape_keeps_need_more:
  "need_more_data it \<Longrightarrow> need_more_data (fixed_shape n k mk it)"
  by (simp add: fixed_shape_def accept_def close_trash_def Let_def)

lemma counted_shape_keeps_need_more:
  "need_more_data it \<Longrightarrow> need_more_data (counted_shape m c b k mk it)"
  by (simp add: counted_shape_def accept_def close_trash_def Let_def)

lemma response_after_short_request:
  assumes flags: "\<not> request it"
    and B: "no_emit (it\<lparr>need_more_data := True\<rparr>) (B (it\<lparr>need_more_data := True\<rparr>)) \<or>
            emits IsResponse (it\<lparr>need_more_data := True\<rparr>) (B (it\<lparr>need_more_data := True\<rparr>))"
    and keep: "need_more_data (B (it\<lparr>need_more_data := True\<rparr>))"
  shows "need_more_data (unless_request B (it\<lparr>need_more_data := True\<rparr>)) \<and>
         \<not> request (unless_request B (it\<lparr>need_more_data := True\<rparr>)) \<and>
         (no_emit it (unless_request B (it\<lparr>need_more_data := True\<rparr>)) \<or>
          emits IsResponse it (unless_request B (it\<lparr>need_more_data := True\<rparr>)))"
proof -
  let ?it' = "it\<lparr>need_more_data := True\<rparr>"
  have ne: "no_emit it ?it'" by (simp add: no_emit_def)
  from flags have eq: "unless_request B ?it' = B ?it'" by (simp add: unless_request_def)
  from B have "\<not> request (B ?it')"
    using flags emits_flags [of IsResponse ?it' "B ?it'"] by (auto simp: no_emit_def)
  moreover from B ne have "no_emit it (B ?it') \<or> emits IsResponse it (B ?it')"
    by (auto intro: no_emit_trans no_emit_emits)
  ultimately show ?thesis using keep unfolding eq by simp
qed

lemma try_shapes_short_request:
  assumes flags: "\<not> request it" "\<not> response it"
    and short: "request_short (modbus_data it)"
  shows "need_more_data (try_shapes (modbus_data it ! 1) it) \<and>
         \<not> request (try_shapes (modbus_data it ! 1) it) \<and>
         (no_emit it (try_shapes (modbus_data it ! 1) it) \<or>
          emits IsResponse it (try_shapes (modbus_data it ! 1) it) \<or>
          (modbus_data it ! 1 = 16 \<and> emits IsError it (try_shapes (modbus_data it ! 1) it)))"
proof -
  let ?d = "modbus_data it"
  let ?fc = "?d ! 1"
  let ?it' = "it\<lparr>need_more_data := True\<rparr>"
  have resp_counted: "need_more_data (unless_request (counted_shape 7 2 5 IsResponse read_response) ?it') \<and>
         \<not> request (unless_request (counted_shape 7 2 5 IsResponse read_response) ?it') \<and>
         (no_emit it (unless_request (counted_shape 7 2 5 IsResponse read_response) ?it') \<or>
          emits IsResponse it (unless_request (counted_shape 7 2 5 IsResponse read_response) ?it'))"
    by (rule response_after_short_request [OF flags(1)])
       (simp_all add: counted_shape_step counted_shape_keeps_need_more)
  have resp_fixed: "need_more_data (unless_request (fixed_shape n IsResponse mk) ?it') \<and>
         \<not> request (unless_request (fixed_shape n IsResponse mk) ?it') \<and>
         (no_emit it (unless_request (fixed_shape n IsResponse mk) ?it') \<or>
          emits IsResponse it (unless_request (fixed_shape n IsResponse mk) ?it'))"
    if "5 \<le> n" for n mk
    using that by (intro response_after_short_request [OF flags(1)])
       (simp_all add: fixed_shape_step fixed_shape_keeps_need_more)
  from short consider
      (read) "?fc = 1 \<or> ?fc = 2 \<or> ?fc = 3 \<or> ?fc = 4" "length ?d < 8"
    | (coil) "?fc = 5" "length ?d < 8"
    | (reg) "?fc = 6" "length ?d < 8"
    | (coils) "?fc = 15" "length ?d < 10 \<or> length ?d < 9 + unat (?d ! 6)"
    | (regs) "?fc = 16" "length ?d < 11 \<or> length ?d < 9 + unat (?d ! 6)"
    | (rw) "?fc = 23" "length ?d < 15 \<or> length ?d < 13 + unat (?d ! 10)"
    by (auto simp: request_short_def Let_def)
  then show ?thesis
  proof cases
    case read
    then have eq: "try_shapes ?fc it = unless_request (counted_shape 7 2 5 IsResponse read_response) ?it'"
      by (auto simp: try_shapes_def fixed_shape_short)
    show ?thesis unfolding eq using resp_counted by auto
  next
    case coil
    then have eq: "try_shapes ?fc it = unless_request (fixed_shape 6 IsResponse write_coil_response) ?it'"
      by (simp add: try_shapes_def fixed_shape_short)
    show ?thesis unfolding eq using resp_fixed [of 6 write_coil_response] by auto
  next
    case reg
    then have eq: "try_shapes ?fc it = unless_request (fixed_shape 8 IsResponse write_register_response) ?it'"
      by (simp add: try_shapes_def fixed_shape_short)
    show ?thesis unfolding eq using resp_fixed [of 8 write_register_response] by auto
  next
    case coils
    then have eq: "try_shapes ?fc it = unless_request (fixed_shape 8 IsResponse write_multiple_response) ?it'"
      by (simp add: try_shapes_def counted_shape_short)
    show ?thesis unfolding eq using resp_fixed [of 8 write_multiple_response] by auto
  next
    case rw
    then have eq: "try_shapes ?fc it = unless_request (counted_shape 7 2 5 IsResponse read_response) ?it'"
      by (simp add: try_shapes_def counted_shape_short)
    show ?thesis unfolding eq using resp_counted by auto
  next
    case regs
    let ?r1 = "unless_request (fixed_shape 8 IsResponse write_multiple_response) ?it'"
    let ?E = "fixed_shape 5 IsError exception_frame"
    from regs have eq: "try_shapes ?fc it = unless_decoded ?E ?r1"
      by (simp add: try_shapes_def counted_shape_short)
    note r1 = resp_fixed [of 8 write_multiple_response, simplified]
    show ?thesis
    proof (cases "response ?r1")
      case True
      then have "unless_decoded ?E ?r1 = ?r1" by (simp add: unless_decoded_def)
      with r1 show ?thesis unfolding eq by auto
    next
      case False
      with r1 have ne: "no_emit it ?r1"
        using emits_flags [of IsResponse it ?r1] by auto
      from False r1 have eq2: "unless_decoded ?E ?r1 = ?E ?r1" by (simp add: unless_decoded_def)
      have "no_emit ?r1 (?E ?r1) \<or> emits IsError ?r1 (?E ?r1)"
        by (rule fixed_shape_step) simp
      with ne have "no_emit it (?E ?r1) \<or> emits IsError it (?E ?r1)"
        by (auto intro: no_emit_trans no_emit_emits)
      moreover have "need_more_data (?E ?r1)"
        using r1 by (simp add: fixed_shape_keeps_need_more)
      moreover have "\<not> request (?E ?r1)"
        using \<open>no_emit it (?E ?r1) \<or> emits IsError it (?E ?r1)\<close> flags(1)
          emits_flags [of IsError it "?E ?r1"] by (auto simp: no_emit_def)
      ultimately show ?thesis using regs(1) unfolding eq eq2 by blast
    qed
  qed
qed

lemmas shape_defs = request_matches_def request_mismatched_def request_short_def
  request_frame_def request_length_def response_matches_def response_frame_def
  response_length_def response_short_def

lemmas block_defs = try_shapes_def fixed_shape_def counted_shape_def unless_request_def
  unless_decoded_def accept_def close_trash_def Let_def

lemma request_trichotomy:
  "supported (d ! 1) \<Longrightarrow> request_matches d \<or> request_short d \<or> request_mismatched d"
  unfolding supported_def shape_defs Let_def by (elim disjE) auto

lemma request_exclusive:
  "\<not> (request_matches d \<and> request_short d) \<and> \<not> (request_matches d \<and> request_mismatched d) \<and>
   \<not> (request_short d \<and> request_mismatched d)"
  unfolding shape_defs Let_def by auto

lemma try_shapes_request:
  assumes flags: "\<not> request it" "\<not> response it" "\<not> error it" "\<not> need_more_data it"
    and sup: "supported (modbus_data it ! 1)"
    and m: "request_matches (modbus_data it)"
  shows "try_shapes (modbus_data it ! 1) it =
           accept IsRequest (request_frame (modbus_data it)) (request_length (modbus_data it)) it"
  using sup m unfolding supported_def
  by (elim disjE) (simp_all add: shape_defs block_defs)


lemma need_more_data_same: "\<not> need_more_data it \<Longrightarrow> it\<lparr>need_more_data := False\<rparr> = it"
  by simp

lemma try_shapes_response:
  assumes flags: "\<not> request it" "\<not> response it" "\<not> error it" "\<not> need_more_data it"
    and sup: "supported (modbus_data it ! 1)"
    and nm: "\<not> request_matches (modbus_data it)"
    and m: "response_matches (modbus_data it)"
  shows "try_shapes (modbus_data it ! 1) it =
           (accept IsResponse (response_frame (modbus_data it)) (response_length (modbus_data it)) it)
             \<lparr>need_more_data := request_short (modbus_data it)\<rparr>"
proof -
  let ?d = "modbus_data it"
  note same = need_more_data_same [OF flags(4)]
  from sup consider (read) "?d ! 1 = 1 \<or> ?d ! 1 = 2 \<or> ?d ! 1 = 3 \<or> ?d ! 1 = 4"
    | (c5) "?d ! 1 = 5" | (c6) "?d ! 1 = 6" | (c15) "?d ! 1 = 15" | (c16) "?d ! 1 = 16"
    | (c23) "?d ! 1 = 23"
    by (auto simp: supported_def)
  then show ?thesis
  proof cases
    case read
    with nm m flags show ?thesis by (elim disjE) (simp_all add: shape_defs block_defs same)
  next
    case c5
    with nm m flags show ?thesis by (simp add: shape_defs block_defs same)
  next
    case c6
    with nm m flags show ?thesis by (simp add: shape_defs block_defs same)
  next
    case c15
    with nm m flags show ?thesis by (simp add: shape_defs block_defs same)
  next
    case c16
    with nm m flags show ?thesis by (simp add: shape_defs block_defs same)
  next
    case c23
    with nm m flags show ?thesis by (simp add: shape_defs block_defs same)
  qed
qed

lemma fixed_shape_unmatched:
  "\<not> (n \<le> length (modbus_data it) \<and> crc_matches (modbus_data it) (n - 2)) \<Longrightarrow>
     fixed_shape n k mk it =
       it\<lparr>need_more_data := (need_more_data it \<or> length (modbus_data it) < n)\<rparr>"
  by (auto simp: fixed_shape_def Let_def)

lemma counted_shape_unmatched:
  "\<not> (m \<le> length (modbus_data it) \<and> b + unat (modbus_data it ! c) \<le> length (modbus_data it) \<and>
      crc_matches (modbus_data it) (b + unat (modbus_data it ! c) - 2)) \<Longrightarrow>
     counted_shape m c b k mk it =
       it\<lparr>need_more_data := (need_more_data it \<or> length (modbus_data it) < m \<or>
                                length (modbus_data it) < b + unat (modbus_data it ! c))\<rparr>"
  by (auto simp: counted_shape_def Let_def)

lemma try_shapes_neither:
  assumes flags: "\<not> request it" "\<not> response it" "\<not> error it" "\<not> need_more_data it"
    and sup: "supported (modbus_data it ! 1)"
    and nm: "\<not> request_matches (modbus_data it)"
    and nr: "\<not> response_matches (modbus_data it)"
  shows "(modbus_data it ! 1 \<noteq> 16 \<longrightarrow>
            try_shapes (modbus_data it ! 1) it =
              it\<lparr>need_more_data := (request_short (modbus_data it) \<or> response_short (modbus_data it))\<rparr>)
       \<and> (modbus_data it ! 1 = 16 \<longrightarrow>
            try_shapes (modbus_data it ! 1) it =
              fixed_shape 5 IsError exception_frame
                (it\<lparr>need_more_data := (request_short (modbus_data it) \<or> response_short (modbus_data it))\<rparr>))"
proof -
  let ?d = "modbus_data it"
  note defs = try_shapes_def unless_request_def unless_decoded_def
  from sup consider (read) "?d ! 1 = 1 \<or> ?d ! 1 = 2 \<or> ?d ! 1 = 3 \<or> ?d ! 1 = 4"
    | (c5) "?d ! 1 = 5" | (c6) "?d ! 1 = 6" | (c15) "?d ! 1 = 15" | (c16) "?d ! 1 = 16"
    | (c23) "?d ! 1 = 23"
    by (auto simp: supported_def)
  then show ?thesis
  proof cases
    case read
    with nm nr have a: "\<not> (8 \<le> length ?d \<and> crc_matches ?d (8 - 2))"
      and b: "\<not> (7 \<le> length ?d \<and> 5 + unat (?d ! 2) \<le> length ?d \<and>
                crc_matches ?d (5 + unat (?d ! 2) - 2))"
      by (auto simp: request_matches_def response_matches_def Let_def)
    have short: "request_short ?d = (length ?d < 8)"
      "response_short ?d = (length ?d < 7 \<or> length ?d < 5 + unat (?d ! 2))"
      using read by (auto simp: request_short_def response_short_def Let_def)
    have "try_shapes (?d ! 1) it = unless_request (counted_shape 7 2 5 IsResponse read_response)
         (fixed_shape 8 IsRequest read_request it)"
      using read by (auto simp: try_shapes_def)
    with a b flags read show ?thesis
      by (auto simp: unless_request_def fixed_shape_unmatched counted_shape_unmatched short)
  next
    case c5
    with nm nr have a: "\<not> (8 \<le> length ?d \<and> crc_matches ?d (8 - 2))"
      and b: "\<not> (6 \<le> length ?d \<and> crc_matches ?d (6 - 2))"
      by (auto simp: request_matches_def response_matches_def Let_def)
    have short: "request_short ?d = (length ?d < 8)" "response_short ?d = (length ?d < 6)"
      using c5 by (auto simp: request_short_def response_short_def Let_def)
    from a b flags c5 show ?thesis
      by (simp add: defs fixed_shape_unmatched short)
  next
    case c6
    with nm nr have a: "\<not> (8 \<le> length ?d \<and> crc_matches ?d (8 - 2))"
      by (auto simp: request_matches_def response_matches_def Let_def)
    have short: "request_short ?d = (length ?d < 8)" "response_short ?d = (length ?d < 8)"
      using c6 by (auto simp: request_short_def response_short_def Let_def)
    from a flags c6 show ?thesis
      by (simp add: defs fixed_shape_unmatched short)
  next
    case c15
    with nm nr have a: "\<not> (10 \<le> length ?d \<and> 9 + unat (?d ! 6) \<le> length ?d \<and>
                crc_matches ?d (9 + unat (?d ! 6) - 2))"
      and b: "\<not> (8 \<le> length ?d \<and> crc_matches ?d (8 - 2))"
      by (auto simp: request_matches_def response_matches_def Let_def)
    have short: "request_short ?d = (length ?d < 10 \<or> length ?d < 9 + unat (?d ! 6))"
      "response_short ?d = (length ?d < 8)"
      using c15 by (auto simp: request_short_def response_short_def Let_def)
    from a b flags c15 show ?thesis
      by (simp add: defs fixed_shape_unmatched counted_shape_unmatched short)
  next
    case c16
    with nm nr have a: "\<not> (11 \<le> length ?d \<and> 9 + unat (?d ! 6) \<le> length ?d \<and>
                crc_matches ?d (9 + unat (?d ! 6) - 2))"
      and b: "\<not> (8 \<le> length ?d \<and> crc_matches ?d (8 - 2))"
      by (auto simp: request_matches_def response_matches_def Let_def)
    have short: "request_short ?d = (length ?d < 11 \<or> length ?d < 9 + unat (?d ! 6))"
      "response_short ?d = (length ?d < 8)"
      using c16 by (auto simp: request_short_def response_short_def Let_def)
    from a b flags c16 show ?thesis
      by (simp add: defs fixed_shape_unmatched [of 8] counted_shape_unmatched short)
  next
    case c23
    with nm nr have a: "\<not> (15 \<le> length ?d \<and> 13 + unat (?d ! 10) \<le> length ?d \<and>
                crc_matches ?d (13 + unat (?d ! 10) - 2))"
      and b: "\<not> (7 \<le> length ?d \<and> 5 + unat (?d ! 2) \<le> length ?d \<and>
                crc_matches ?d (5 + unat (?d ! 2) - 2))"
      by (auto simp: request_matches_def response_matches_def Let_def)
    have short: "request_short ?d = (length ?d < 15 \<or> length ?d < 13 + unat (?d ! 10))"
      "response_short ?d = (length ?d < 7 \<or> length ?d < 5 + unat (?d ! 2))"
      using c23 by (auto simp: request_short_def response_short_def Let_def)
    from a b flags c23 show ?thesis
      by (simp add: defs fixed_shape_unmatched counted_shape_unmatched short)
  qed
qed

lemma need_more_data_fixed_shape:
  "need_more_data (fixed_shape n k mk it) = (need_more_data it \<or> length (modbus_data it) < n)"
  by (simp add: fixed_shape_def accept_def close_trash_def Let_def)

subsection \<open>Rounds that log no exception\<close>

lemma fixed_shape_quiet:
  assumes "\<not> error it" "k \<noteq> IsError" "\<And>d bs. \<not> is_exception (Decoded (mk d) bs)"
  shows "quiet it (fixed_shape n k mk it)"
  using assms
  by (simp add: quiet_def fixed_shape_def accept_def close_trash_def Let_def)

lemma counted_shape_quiet:
  assumes "\<not> error it" "k \<noteq> IsError" "\<And>d bs. \<not> is_exception (Decoded (mk d) bs)"
  shows "quiet it (counted_shape m c b k mk it)"
  using assms
  by (simp add: quiet_def counted_shape_def accept_def close_trash_def Let_def)

lemma builders_not_exception:
  "\<not> is_exception (Decoded (read_request d) bs)"
  "\<not> is_exception (Decoded (read_response d) bs)"
  "\<not> is_exception (Decoded (write_single_request d) bs)"
  "\<not> is_exception (Decoded (write_coil_response d) bs)"
  "\<not> is_exception (Decoded (write_register_response d) bs)"
  "\<not> is_exception (Decoded (write_multiple_request d) bs)"
  "\<not> is_exception (Decoded (write_multiple_response d) bs)"
  "\<not> is_exception (Decoded (read_write_request d) bs)"
  by (simp_all add: frame_defs)

lemma quiet_refl: "\<not> error it \<Longrightarrow> quiet it it"
  by (simp add: quiet_def)

lemma quietI:
  assumes "\<not> error it" "quiet it it1" "\<not> error it1 \<Longrightarrow> quiet it1 (B it1)"
  shows "quiet it (unless_request B it1)"
  using assms by (auto simp: quiet_def unless_request_def)

lemma try_shapes_quiet:
  assumes ne: "\<not> error it" and low: "fc < 0x80" and fc: "fc \<noteq> 16"
  shows "quiet it (try_shapes fc it)"
proof -
  from low have nh: "\<not> 0x80 \<le> fc" by simp
  have q1: "quiet it (fixed_shape n IsRequest mk it)"
    if "\<And>d bs. \<not> is_exception (Decoded (mk d) bs)" for n mk
    using ne that by (intro fixed_shape_quiet) simp_all
  have q2: "quiet it (counted_shape m c b IsRequest mk it)"
    if "\<And>d bs. \<not> is_exception (Decoded (mk d) bs)" for m c b mk
    using ne that by (intro counted_shape_quiet) simp_all
  have r1: "quiet x (fixed_shape n IsResponse mk x)"
    if "\<not> error x" "\<And>d bs. \<not> is_exception (Decoded (mk d) bs)" for n mk x
    using that by (intro fixed_shape_quiet) simp_all
  have r2: "quiet x (counted_shape m c b IsResponse mk x)"
    if "\<not> error x" "\<And>d bs. \<not> is_exception (Decoded (mk d) bs)" for m c b mk x
    using that by (intro counted_shape_quiet) simp_all
  note pieces = quietI [OF ne] q1 q2 r1 r2 builders_not_exception
  have a: "quiet it (unless_request (counted_shape 7 2 5 IsResponse read_response)
          (fixed_shape 8 IsRequest read_request it))"
    by (intro pieces) (simp_all add: quiet_def)
  have b: "quiet it (unless_request (fixed_shape 6 IsResponse write_coil_response)
          (fixed_shape 8 IsRequest write_single_request it))"
    by (intro pieces) (simp_all add: quiet_def)
  have c: "quiet it (unless_request (fixed_shape 8 IsResponse write_register_response)
          (fixed_shape 8 IsRequest write_single_request it))"
    by (intro pieces) (simp_all add: quiet_def)
  have d: "quiet it (unless_request (fixed_shape 8 IsResponse write_multiple_response)
          (counted_shape 10 6 9 IsRequest write_multiple_request it))"
    by (intro pieces) (simp_all add: quiet_def)
  have f: "quiet it (unless_request (counted_shape 7 2 5 IsResponse read_response)
          (counted_shape 15 10 13 IsRequest read_write_request it))"
    by (intro pieces) (simp_all add: quiet_def)
  have h: "quiet it it" using ne by (rule quiet_refl)
  show ?thesis
    unfolding try_shapes_def using a b c d f h fc nh by presburger
qed

subsection \<open>The read function codes\<close>

lemma try_shapes_read:
  "fc = 1 \<or> fc = 2 \<or> fc = 3 \<or> fc = 4 \<Longrightarrow>
     try_shapes fc it =
       unless_request (counted_shape 7 2 5 IsResponse read_response)
         (fixed_shape 8 IsRequest read_request it)"
  by (auto simp: try_shapes_def)

lemma read_request_not_matched:
  assumes "\<not> need_more_data it" "\<not> request it"
    and "\<not> (8 \<le> length (modbus_data it) \<and> crc_matches (modbus_data it) 6)"
  shows "fixed_shape 8 IsRequest read_request it = it\<lparr>need_more_data := (length (modbus_data it) < 8)\<rparr>"
  using assms by (auto simp: fixed_shape_def Let_def)

section \<open>Accounting for the bytes\<close>

lemma accounted_fresh [simp]: "accounted (fresh it0) = accounted it0"
  by (simp add: accounted_def fresh_def)

lemma accounted_no_emit: "no_emit it it' \<Longrightarrow> accounted it' = accounted it"
  by (simp add: accounted_def no_emit_def)

lemma accounted_emits: "emits k it it' \<Longrightarrow> accounted it' = accounted it"
  by (auto simp: accounted_def emits_def emit_as_def open_noise_def)

lemma accounted_decode_frame: "accounted (decode_frame it0) = accounted it0"
  using decode_frame_step [of it0] accounted_no_emit [of "fresh it0" "decode_frame it0"]
    accounted_emits [of _ "fresh it0" "decode_frame it0"]
  by (auto simp: step_ok_def)

lemma accounted_ignore_byte: "modbus_data it \<noteq> [] \<Longrightarrow> accounted (ignore_byte it) = accounted it"
  by (cases "modbus_data it") (simp_all add: accounted_def ignore_byte_def open_noise_def)

lemma accounted_decode_modbus: "accounted (decode_modbus it0) = accounted it0"
proof (induction it0 rule: decode_modbus.induct)
  case (1 it0)
  let ?it = "decode_frame it0"
  show ?case
  proof (cases "need_more_data ?it")
    case True
    then show ?thesis by (simp add: decode_modbus_return accounted_decode_frame)
  next
    case more: False
    show ?thesis
    proof (cases "\<not> request ?it \<and> \<not> response ?it \<and> \<not> error ?it")
      case True
      with more round_noise [of it0] have "modbus_data ?it \<noteq> []"
        by (auto simp: no_emit_def)
      then have "accounted (ignore_byte ?it) = accounted it0"
        by (simp add: accounted_ignore_byte accounted_decode_frame)
      with "1.IH"(1) [OF refl more True] decode_modbus_noise [OF more True]
      show ?thesis by simp
    next
      case False
      with "1.IH"(2) [OF refl more False] decode_modbus_frame [OF more False]
      show ?thesis by (simp add: accounted_decode_frame)
    qed
  qed
qed

lemma account_process_data: "account (process_data self chunk) = account self @ chunk"
proof (cases "chunk = []")
  case False
  then show ?thesis by (simp add: process_data_def account_def)
next
  case True
  show ?thesis
  proof (cases "length (data self) > 2")
    case False
    with True show ?thesis by (simp add: process_data_def)
  next
    case long: True
    have "account (leave (decode_modbus (enter self (data self))))
          = accounted (decode_modbus (enter self (data self)))"
      by (simp add: account_def accounted_def leave_def)
    also have "\<dots> = accounted (enter self (data self))"
      by (rule accounted_decode_modbus)
    also have "\<dots> = account self"
      by (simp add: account_def accounted_def enter_def)
    finally show ?thesis using True long by (simp add: process_data_def)
  qed
qed

lemma account_foldl: "account (foldl process_data self chunks) = account self @ concat chunks"
  by (induction chunks arbitrary: self) (simp_all add: account_process_data)

section \<open>The properties\<close>

subsection \<open>C1: when the buffer is decoded\<close>

text \<open>
  C1, as the code has it. \<^verbatim>\<open>process_data\<close> does not decode on every call: a non-empty
  chunk is only appended to the buffer, nothing is logged; an empty chunk appends
  nothing and runs the decoder when more than two bytes are buffered. So after the
  first 5 bytes of the 8-byte response \<^verbatim>\<open>01 10 00 01 00 02 10 08\<close> nothing is logged and 5
  bytes are buffered, after the remaining 3 bytes (a non-empty call) still nothing is
  logged and 8 bytes are buffered, and the empty call that follows logs exactly one
  response and empties the buffer.
\<close>

theorem process_data_decodes_on_timeout_only:
  "(chunk \<noteq> [] \<longrightarrow> process_data self chunk = self\<lparr>data := data self @ chunk\<rparr>)
   \<and> process_data self [] =
       (if length (data self) > 2 then leave (decode_modbus (enter self (data self))) else self)
   \<and> feed [[0x01, 0x10, 0x00, 0x01, 0x00]] =
       \<lparr>data = [0x01, 0x10, 0x00, 0x01, 0x00], trash_data = False, trash_data_f = [],
        logged = []\<rparr>
   \<and> feed [[0x01, 0x10, 0x00, 0x01, 0x00], [0x02, 0x10, 0x08]] =
       \<lparr>data = [0x01, 0x10, 0x00, 0x01, 0x00, 0x02, 0x10, 0x08], trash_data = False,
        trash_data_f = [], logged = []\<rparr>
   \<and> feed [[0x01, 0x10, 0x00, 0x01, 0x00], [0x02, 0x10, 0x08], []] =
       \<lparr>data = [], trash_data = False, trash_data_f = [],
        logged = [Decoded (Response 0x01 0x10 (WriteAddressQuantity 1 2))
                    [0x01, 0x10, 0x00, 0x01, 0x00, 0x02, 0x10, 0x08]]\<rparr>"
proof (intro conjI impI)
  show "process_data self chunk = self\<lparr>data := data self @ chunk\<rparr>" if "chunk \<noteq> []"
    using that by (simp add: process_data_def)
  show "process_data self [] =
       (if length (data self) > 2 then leave (decode_modbus (enter self (data self))) else self)"
    by (simp add: process_data_def)
  show "feed [[0x01, 0x10, 0x00, 0x01, 0x00]] =
       \<lparr>data = [0x01, 0x10, 0x00, 0x01, 0x00], trash_data = False, trash_data_f = [],
        logged = []\<rparr>"
    by (simp add: feed_defs)
  show "feed [[0x01, 0x10, 0x00, 0x01, 0x00], [0x02, 0x10, 0x08]] =
       \<lparr>data = [0x01, 0x10, 0x00, 0x01, 0x00, 0x02, 0x10, 0x08], trash_data = False,
        trash_data_f = [], logged = []\<rparr>"
    by (simp add: feed_defs)
  show "feed [[0x01, 0x10, 0x00, 0x01, 0x00], [0x02, 0x10, 0x08], []] =
       \<lparr>data = [], trash_data = False, trash_data_f = [],
        logged = [Decoded (Response 0x01 0x10 (WriteAddressQuantity 1 2))
                    [0x01, 0x10, 0x00, 0x01, 0x00, 0x02, 0x10, 0x08]]\<rparr>"
    by (simp add: feed_defs decode_modbus.simps decode_defs frame_defs crc_defs)
qed

theorem process_data_decodes_on_timeout_only_witness:
  "[0x09 :: byte] \<noteq> []
   \<and> process_data SerialSnooper [0x09] =
       \<lparr>data = [0x09], trash_data = False, trash_data_f = [], logged = []\<rparr>
   \<and> process_data SerialSnooper [] = SerialSnooper"
  using process_data_decodes_on_timeout_only [of "[0x09]" SerialSnooper]
  by (simp add: SerialSnooper_def)

text \<open>
  The claim as stated fails: the second call, with the non-empty chunk that completes
  the response, logs nothing.
\<close>

theorem second_chunk_not_decoded:
  "crc_matches [0x01, 0x10, 0x00, 0x01, 0x00, 0x02, 0x10, 0x08] 6
   \<and> logged (feed [[0x01, 0x10, 0x00, 0x01, 0x00], [0x02, 0x10, 0x08]]) = []
   \<and> \<not> (\<exists>e. logged (feed [[0x01, 0x10, 0x00, 0x01, 0x00], [0x02, 0x10, 0x08]]) = [e]
             \<and> is_response e)"
  by (simp add: feed_defs crc_defs)

subsection \<open>C2: exceptions\<close>

text \<open>
  C2, as the code has it. Whenever the buffer holds at least 5 bytes, its second byte
  is at least \<open>0x80\<close> and the checksum of the first 3 bytes equals the value in
  bytes 3 and 4, one round logs an exception (after closing an open warning line) and
  cuts 5 bytes off the buffer, whatever the low seven bits of the function code are.
  The logged exception carries the function code byte as it was read, with the high
  bit still set: the source never masks it with \<open>0x7F\<close>.
\<close>

theorem exception_generic:
  assumes len: "5 \<le> length (modbus_data it0)"
    and high: "0x80 \<le> modbus_data it0 ! 1"
    and crc: "crc_matches (modbus_data it0) 3"
  shows "decode_frame it0 =
           accept IsError
             (Exception (modbus_data it0 ! 0) (modbus_data it0 ! 1) (modbus_data it0 ! 2)) 5 (fresh it0)
         \<and> logged (decode_frame it0) =
             logged it0 @ (if trash_data it0 then [Ignoring (trash_data_f it0)] else [])
               @ [Decoded (Exception (modbus_data it0 ! 0) (modbus_data it0 ! 1) (modbus_data it0 ! 2))
                    (take 5 (modbus_data it0))]
         \<and> modbus_data (decode_frame it0) = drop 5 (modbus_data it0)
         \<and> error (decode_frame it0) \<and> \<not> request (decode_frame it0)
         \<and> \<not> response (decode_frame it0) \<and> \<not> need_more_data (decode_frame it0)
         \<and> \<not> trash_data (decode_frame it0)"
proof -
  let ?d = "modbus_data it0"
  let ?fr = "Exception (?d ! 0) (?d ! 1) (?d ! 2)"
  from len have "decode_frame it0 = try_shapes (?d ! 1) (fresh it0)"
    by (simp add: decode_frame_def Let_def)
  also from high have "\<dots> = fixed_shape 5 IsError exception_frame (fresh it0)"
    by (rule try_shapes_high_bit)
  also from len crc have "\<dots> = accept IsError ?fr 5 (fresh it0)"
    by (simp add: fixed_shape_def exception_frame_def Let_def)
  finally have eq: "decode_frame it0 = accept IsError ?fr 5 (fresh it0)" .
  show ?thesis
    unfolding eq by (simp add: accept_def close_trash_def fresh_def Let_def)
qed

theorem exception_generic_witness:
  "logged (decode_frame
      \<lparr>data = [], trash_data = True, trash_data_f = [0xFF], logged = [],
       modbus_data = [0x0A, 0x90, 0x04, 0x3C, 0x01, 0x07], request = False, response = False,
       error = False, need_more_data = False\<rparr>)
     = [Ignoring [0xFF], Decoded (Exception 0x0A 0x90 0x04) [0x0A, 0x90, 0x04, 0x3C, 0x01]]
   \<and> modbus_data (decode_frame
      \<lparr>data = [], trash_data = True, trash_data_f = [0xFF], logged = [],
       modbus_data = [0x0A, 0x90, 0x04, 0x3C, 0x01, 0x07], request = False, response = False,
       error = False, need_more_data = False\<rparr>) = [0x07]
   \<and> error (decode_frame
      \<lparr>data = [], trash_data = True, trash_data_f = [0xFF], logged = [],
       modbus_data = [0x0A, 0x90, 0x04, 0x3C, 0x01, 0x07], request = False, response = False,
       error = False, need_more_data = False\<rparr>)"
proof -
  let ?it = "\<lparr>data = [], trash_data = True, trash_data_f = [0xFF], logged = [],
       modbus_data = [0x0A, 0x90, 0x04, 0x3C, 0x01, 0x07], request = False, response = False,
       error = False, need_more_data = False\<rparr>"
  have len: "5 \<le> length (modbus_data ?it)" by simp
  have high: "0x80 \<le> modbus_data ?it ! 1" by (simp add: word_le_nat_alt)
  have crc: "crc_matches (modbus_data ?it) 3" by (simp add: crc_defs)
  from exception_generic [OF len high crc] show ?thesis
    by (simp add: accept_def close_trash_def fresh_def Let_def)
qed

text \<open>
  The claim as stated fails: for the frame \<^verbatim>\<open>01 83 02 C0 F1\<close> the logged function code
  is \<open>0x83\<close>, not \<open>0x83 AND 0x7F = 3\<close>.
\<close>

theorem exception_code_not_masked:
  "logged (decode_frame (enter SerialSnooper [0x01, 0x83, 0x02, 0xC0, 0xF1]))
     = [Decoded (Exception 0x01 0x83 0x02) [0x01, 0x83, 0x02, 0xC0, 0xF1]]
   \<and> logged (decode_frame (enter SerialSnooper [0x01, 0x83, 0x02, 0xC0, 0xF1]))
     \<noteq> [Decoded (Exception 0x01 (0x83 AND 0x7F) 0x02) [0x01, 0x83, 0x02, 0xC0, 0xF1]]"
  by (simp add: feed_defs decode_defs frame_defs crc_defs word_le_nat_alt)

subsection \<open>C3: the response shape after a request that was not recognised\<close>

text \<open>
  C3, as the code has it, for a buffer of more than two bytes whose function code has a
  request and a response shape. The request shape is either recognised, or lacks bytes,
  or is fully tested with a wrong checksum. If it is recognised, the request is logged
  and the response shape is not tried. In both other cases the response shape is
  tried: if it is complete with the right checksum, the response is logged and cut off
  the buffer, with \<^verbatim>\<open>need_more_data\<close> left set when the request lacked bytes and clear
  when its checksum was wrong; if the response is not recognised either, no request and
  no response is logged, \<^verbatim>\<open>need_more_data\<close> is set exactly when one of the two shapes
  lacked bytes, and the buffer, the log and the warning line are untouched (for
  function code 16 the exception shape may still match). Whenever the request shape
  lacked bytes the round sets \<^verbatim>\<open>need_more_data\<close>, so the decoder returns after it and no
  byte is thrown away as noise.
\<close>

theorem response_tried_unless_request_recognised:
  assumes len: "2 < length (modbus_data it0)"
    and sup: "supported (modbus_data it0 ! 1)"
  shows "(request_matches (modbus_data it0) \<or> request_short (modbus_data it0) \<or>
          request_mismatched (modbus_data it0))
       \<and> (request_matches (modbus_data it0)
          \<longrightarrow> decode_frame it0 =
                accept IsRequest (request_frame (modbus_data it0))
                  (request_length (modbus_data it0)) (fresh it0))
       \<and> (request_short (modbus_data it0) \<and> response_matches (modbus_data it0)
          \<longrightarrow> decode_frame it0 =
                (accept IsResponse (response_frame (modbus_data it0))
                   (response_length (modbus_data it0)) (fresh it0))
                  \<lparr>need_more_data := True\<rparr>)
       \<and> (request_mismatched (modbus_data it0) \<and> response_matches (modbus_data it0)
          \<longrightarrow> decode_frame it0 =
                accept IsResponse (response_frame (modbus_data it0))
                  (response_length (modbus_data it0)) (fresh it0))
       \<and> ((request_short (modbus_data it0) \<or> request_mismatched (modbus_data it0)) \<and>
          \<not> response_matches (modbus_data it0)
          \<longrightarrow> \<not> request (decode_frame it0) \<and> \<not> response (decode_frame it0) \<and>
              need_more_data (decode_frame it0) =
                (request_short (modbus_data it0) \<or> response_short (modbus_data it0)) \<and>
              (no_emit (fresh it0) (decode_frame it0) \<or>
               (modbus_data it0 ! 1 = 16 \<and> emits IsError (fresh it0) (decode_frame it0))))
       \<and> (request_short (modbus_data it0)
          \<longrightarrow> need_more_data (decode_frame it0) \<and> \<not> request (decode_frame it0) \<and>
              (no_emit (fresh it0) (decode_frame it0) \<or>
               emits IsResponse (fresh it0) (decode_frame it0) \<or>
               (modbus_data it0 ! 1 = 16 \<and> emits IsError (fresh it0) (decode_frame it0))) \<and>
              decode_modbus it0 = decode_frame it0)"
proof -
  let ?d = "modbus_data it0"
  let ?it = "fresh it0"
  let ?r = "decode_frame it0"
  have d: "modbus_data ?it = ?d" by simp
  from len have eq: "?r = try_shapes (modbus_data ?it ! 1) ?it"
    by (simp add: decode_frame_def Let_def)
  have flags: "\<not> request ?it" "\<not> response ?it" "\<not> error ?it" "\<not> need_more_data ?it"
    by (simp_all add: fresh_def)
  from sup have sup': "supported (modbus_data ?it ! 1)" by simp
  note excl = request_exclusive [of ?d]
  have tri: "request_matches ?d \<or> request_short ?d \<or> request_mismatched ?d"
    using sup by (rule request_trichotomy)
  have req: "?r = accept IsRequest (request_frame ?d) (request_length ?d) ?it"
    if "request_matches ?d"
    using try_shapes_request [OF flags sup'] that unfolding eq d by simp
  have resp: "?r = (accept IsResponse (response_frame ?d) (response_length ?d) ?it)
                      \<lparr>need_more_data := request_short ?d\<rparr>"
    if "\<not> request_matches ?d" "response_matches ?d"
    using try_shapes_response [OF flags sup'] that unfolding eq d by simp
  have resp_short: "?r = (accept IsResponse (response_frame ?d) (response_length ?d) ?it)
                      \<lparr>need_more_data := True\<rparr>"
    if "request_short ?d \<and> response_matches ?d"
    using resp that excl by auto
  have resp_mismatched: "?r = accept IsResponse (response_frame ?d) (response_length ?d) ?it"
    if a: "request_mismatched ?d \<and> response_matches ?d"
  proof -
    from a excl have "\<not> request_matches ?d" "\<not> request_short ?d" by auto
    with a resp have "?r = (accept IsResponse (response_frame ?d) (response_length ?d) ?it)
                      \<lparr>need_more_data := False\<rparr>"
      by simp
    then show ?thesis by (simp add: accept_def close_trash_def fresh_def Let_def)
  qed
  have neither: "\<not> request ?r \<and> \<not> response ?r \<and>
        need_more_data ?r = (request_short ?d \<or> response_short ?d) \<and>
        (no_emit ?it ?r \<or> (?d ! 1 = 16 \<and> emits IsError ?it ?r))"
    if a: "(request_short ?d \<or> request_mismatched ?d) \<and> \<not> response_matches ?d"
  proof -
    let ?b = "request_short ?d \<or> response_short ?d"
    let ?it' = "?it\<lparr>need_more_data := ?b\<rparr>"
    from a excl have nm: "\<not> request_matches (modbus_data ?it)"
      and nr: "\<not> response_matches (modbus_data ?it)" by auto
    note n = try_shapes_neither [OF flags sup' nm nr]
    have base: "no_emit ?it ?it'" by (simp add: no_emit_def)
    show ?thesis
    proof (cases "?d ! 1 = 16")
      case False
      with n have "?r = ?it'" unfolding eq d by blast
      with flags base show ?thesis by (simp add: no_emit_def)
    next
      case True
      with n have r: "?r = fixed_shape 5 IsError exception_frame ?it'" unfolding eq d by blast
      have step: "no_emit ?it' ?r \<or> emits IsError ?it' ?r"
        unfolding r by (rule fixed_shape_step) simp
      with base have out: "no_emit ?it ?r \<or> emits IsError ?it ?r"
        by (auto intro: no_emit_trans no_emit_emits)
      then have fl: "\<not> request ?r \<and> \<not> response ?r"
        using flags emits_flags [of IsError ?it ?r] by (auto simp: no_emit_def)
      have "length ?d < 5 \<longrightarrow> request_short ?d"
        using True by (simp add: request_short_def Let_def)
      then have "need_more_data ?r = ?b"
        unfolding r by (auto simp: need_more_data_fixed_shape)
      with fl out True show ?thesis by blast
    qed
  qed
  have short: "need_more_data ?r \<and> \<not> request ?r \<and>
        (no_emit ?it ?r \<or> emits IsResponse ?it ?r \<or> (?d ! 1 = 16 \<and> emits IsError ?it ?r)) \<and>
        decode_modbus it0 = ?r"
    if a: "request_short ?d"
  proof -
    from a have "request_short (modbus_data ?it)" by simp
    with flags(1,2) have main: "need_more_data ?r \<and> \<not> request ?r \<and>
         (no_emit ?it ?r \<or> emits IsResponse ?it ?r \<or>
          (modbus_data ?it ! 1 = 16 \<and> emits IsError ?it ?r))"
      unfolding eq by (rule try_shapes_short_request)
    then have "decode_modbus it0 = ?r" by (simp add: decode_modbus_return)
    with main show ?thesis by simp
  qed
  from tri req resp_short resp_mismatched neither short show ?thesis by blast
qed

theorem response_tried_unless_request_recognised_witness:
  "request_matches [0x01, 0x03, 0x00, 0x00, 0x00, 0x0A, 0xC5, 0xCD]
   \<and> logged (decode_frame (enter SerialSnooper [0x01, 0x03, 0x00, 0x00, 0x00, 0x0A, 0xC5, 0xCD]))
       = [Decoded (Request 0x01 0x03 (ReadAddressQuantity 0 10))
            [0x01, 0x03, 0x00, 0x00, 0x00, 0x0A, 0xC5, 0xCD]]
   \<and> request_short [0x11, 0x05, 0x00, 0xAC, 0x15, 0x64]
   \<and> response_matches [0x11, 0x05, 0x00, 0xAC, 0x15, 0x64]
   \<and> logged (decode_modbus (enter SerialSnooper [0x11, 0x05, 0x00, 0xAC, 0x15, 0x64]))
       = [Decoded (Response 0x11 0x05 (WriteAddress 172)) [0x11, 0x05, 0x00, 0xAC, 0x15, 0x64]]
   \<and> modbus_data (decode_modbus (enter SerialSnooper [0x11, 0x05, 0x00, 0xAC, 0x15, 0x64])) = []
   \<and> need_more_data (decode_frame (enter SerialSnooper [0x11, 0x05, 0x00, 0xAC, 0x15, 0x64]))
   \<and> request_mismatched [0x02, 0x04, 0x04, 0x00, 0x01, 0x00, 0x02, 0x18, 0x85]
   \<and> response_matches [0x02, 0x04, 0x04, 0x00, 0x01, 0x00, 0x02, 0x18, 0x85]
   \<and> logged (decode_frame (enter SerialSnooper [0x02, 0x04, 0x04, 0x00, 0x01, 0x00, 0x02, 0x18, 0x85]))
       = [Decoded (Response 0x02 0x04 (ReadByteCountData 4 [0x00, 0x01, 0x00, 0x02]))
            [0x02, 0x04, 0x04, 0x00, 0x01, 0x00, 0x02, 0x18, 0x85]]
   \<and> \<not> need_more_data
         (decode_frame (enter SerialSnooper [0x02, 0x04, 0x04, 0x00, 0x01, 0x00, 0x02, 0x18, 0x85]))
   \<and> request_short [0x01, 0x03, 0x00, 0x00, 0x00]
   \<and> \<not> response_matches [0x01, 0x03, 0x00, 0x00, 0x00]
   \<and> need_more_data (decode_frame (enter SerialSnooper [0x01, 0x03, 0x00, 0x00, 0x00]))
   \<and> \<not> response (decode_frame (enter SerialSnooper [0x01, 0x03, 0x00, 0x00, 0x00]))
   \<and> decode_modbus (enter SerialSnooper [0x01, 0x03, 0x00, 0x00, 0x00])
       = decode_frame (enter SerialSnooper [0x01, 0x03, 0x00, 0x00, 0x00])"
proof -
  let ?a = "enter SerialSnooper [0x01, 0x03, 0x00, 0x00, 0x00, 0x0A, 0xC5, 0xCD]"
  let ?b = "enter SerialSnooper [0x11, 0x05, 0x00, 0xAC, 0x15, 0x64]"
  let ?c = "enter SerialSnooper [0x02, 0x04, 0x04, 0x00, 0x01, 0x00, 0x02, 0x18, 0x85]"
  let ?e = "enter SerialSnooper [0x01, 0x03, 0x00, 0x00, 0x00]"
  have da: "modbus_data ?a = [0x01, 0x03, 0x00, 0x00, 0x00, 0x0A, 0xC5, 0xCD]"
    and db: "modbus_data ?b = [0x11, 0x05, 0x00, 0xAC, 0x15, 0x64]"
    and dc: "modbus_data ?c = [0x02, 0x04, 0x04, 0x00, 0x01, 0x00, 0x02, 0x18, 0x85]"
    and de: "modbus_data ?e = [0x01, 0x03, 0x00, 0x00, 0x00]"
    by (simp_all add: enter_def)
  have la: "2 < length (modbus_data ?a)" and sa: "supported (modbus_data ?a ! 1)"
    and lb: "2 < length (modbus_data ?b)" and sb: "supported (modbus_data ?b ! 1)"
    and lc: "2 < length (modbus_data ?c)" and sc: "supported (modbus_data ?c ! 1)"
    and le: "2 < length (modbus_data ?e)" and se: "supported (modbus_data ?e ! 1)"
    by (simp_all add: enter_def supported_def)
  have ha: "request_matches (modbus_data ?a)"
    unfolding da by (simp add: request_matches_def crc_defs)
  have hb: "request_short (modbus_data ?b)" "response_matches (modbus_data ?b)"
    unfolding db by (simp_all add: request_short_def response_matches_def crc_defs)
  have hc: "request_mismatched (modbus_data ?c)" "response_matches (modbus_data ?c)"
    unfolding dc by (simp_all add: request_mismatched_def response_matches_def crc_defs)
  have he: "request_short (modbus_data ?e)" "\<not> response_matches (modbus_data ?e)"
    unfolding de by (simp_all add: request_short_def response_matches_def)
  note ta = response_tried_unless_request_recognised [OF la sa]
    and tb = response_tried_unless_request_recognised [OF lb sb]
    and tc = response_tried_unless_request_recognised [OF lc sc]
    and te = response_tried_unless_request_recognised [OF le se]
  from ta ha have ra: "decode_frame ?a =
      accept IsRequest (request_frame (modbus_data ?a)) (request_length (modbus_data ?a)) (fresh ?a)"
    by blast
  from tb hb have rb: "decode_frame ?b =
      (accept IsResponse (response_frame (modbus_data ?b)) (response_length (modbus_data ?b))
         (fresh ?b))\<lparr>need_more_data := True\<rparr>"
    and mb: "decode_modbus ?b = decode_frame ?b"
    by blast+
  from tc hc have rc: "decode_frame ?c =
      accept IsResponse (response_frame (modbus_data ?c)) (response_length (modbus_data ?c))
        (fresh ?c)"
    by blast
  from te he have re: "need_more_data (decode_frame ?e)" "\<not> response (decode_frame ?e)"
    "decode_modbus ?e = decode_frame ?e"
    by blast+
  have va: "logged (decode_frame ?a)
       = [Decoded (Request 0x01 0x03 (ReadAddressQuantity 0 10))
            [0x01, 0x03, 0x00, 0x00, 0x00, 0x0A, 0xC5, 0xCD]]"
    unfolding ra
    by (simp add: feed_defs accept_def close_trash_def fresh_def request_frame_def
          request_length_def read_request_def word_at_def Let_def)
  have vb: "logged (decode_modbus ?b)
       = [Decoded (Response 0x11 0x05 (WriteAddress 172)) [0x11, 0x05, 0x00, 0xAC, 0x15, 0x64]]"
    "modbus_data (decode_modbus ?b) = []" "need_more_data (decode_frame ?b)"
    unfolding mb rb
    by (simp_all add: feed_defs accept_def close_trash_def fresh_def response_frame_def
          response_length_def write_coil_response_def word_at_def Let_def)
  have vc: "logged (decode_frame ?c)
       = [Decoded (Response 0x02 0x04 (ReadByteCountData 4 [0x00, 0x01, 0x00, 0x02]))
            [0x02, 0x04, 0x04, 0x00, 0x01, 0x00, 0x02, 0x18, 0x85]]"
    "\<not> need_more_data (decode_frame ?c)"
    unfolding rc
    by (simp_all add: feed_defs accept_def close_trash_def fresh_def response_frame_def
          response_length_def read_response_def Let_def)
  from ha hb hc he va vb vc re show ?thesis
    unfolding da db dc de by simp
qed

text \<open>
  The claim as stated fails: with the 8 bytes \<^verbatim>\<open>01 10 00 01 00 02 10 08\<close> buffered the
  request shape of function code 16 needs 11 bytes, and the round still tries the
  response shape, logs the response and consumes the 8 bytes.
\<close>

theorem response_emitted_while_request_short:
  "request_short [0x01, 0x10, 0x00, 0x01, 0x00, 0x02, 0x10, 0x08]
   \<and> logged (decode_frame (enter SerialSnooper [0x01, 0x10, 0x00, 0x01, 0x00, 0x02, 0x10, 0x08]))
       = [Decoded (Response 0x01 0x10 (WriteAddressQuantity 1 2))
            [0x01, 0x10, 0x00, 0x01, 0x00, 0x02, 0x10, 0x08]]
   \<and> modbus_data (decode_frame (enter SerialSnooper [0x01, 0x10, 0x00, 0x01, 0x00, 0x02, 0x10, 0x08]))
       = []
   \<and> response (decode_frame (enter SerialSnooper [0x01, 0x10, 0x00, 0x01, 0x00, 0x02, 0x10, 0x08]))"
  by (simp add: request_short_def feed_defs decode_defs frame_defs crc_defs)

subsection \<open>C4: which function codes can give an exception\<close>

text \<open>
  C4, as the code has it. The exception shape inside the branch of function code 16
  is reachable. For a buffer whose second byte is below \<open>0x80\<close> and is not 16, a round
  logs no exception and leaves the \<^verbatim>\<open>error\<close> flag off; an exception is logged only for a
  function code with the high bit set or for function code 16.
\<close>

theorem exception_needs_high_bit_or_16:
  assumes low: "modbus_data it0 ! 1 < 0x80" and not16: "modbus_data it0 ! 1 \<noteq> 16"
  shows "\<not> error (decode_frame it0) \<and>
         filter is_exception (logged (decode_frame it0)) = filter is_exception (logged it0)"
proof (cases "2 < length (modbus_data it0)")
  case True
  then have eq: "decode_frame it0 = try_shapes (modbus_data it0 ! 1) (fresh it0)"
    by (simp add: decode_frame_def Let_def)
  have "\<not> error (fresh it0)" by (simp add: fresh_def)
  then have "quiet (fresh it0) (try_shapes (modbus_data it0 ! 1) (fresh it0))"
    using low not16 by (rule try_shapes_quiet)
  then show ?thesis unfolding eq by (simp add: quiet_def fresh_def)
next
  case False
  then show ?thesis by (simp add: decode_frame_short fresh_def)
qed

theorem exception_needs_high_bit_or_16_witness:
  "modbus_data (enter SerialSnooper [0x01, 0x03, 0x00, 0x00, 0x00, 0x0A, 0xC5, 0xCD]) ! 1 < 0x80
   \<and> modbus_data (enter SerialSnooper [0x01, 0x03, 0x00, 0x00, 0x00, 0x0A, 0xC5, 0xCD]) ! 1 \<noteq> 16
   \<and> \<not> error (decode_frame (enter SerialSnooper [0x01, 0x03, 0x00, 0x00, 0x00, 0x0A, 0xC5, 0xCD]))
   \<and> filter is_exception
        (logged (decode_frame (enter SerialSnooper [0x01, 0x03, 0x00, 0x00, 0x00, 0x0A, 0xC5, 0xCD])))
       = []"
proof -
  let ?it = "enter SerialSnooper [0x01, 0x03, 0x00, 0x00, 0x00, 0x0A, 0xC5, 0xCD]"
  have low: "modbus_data ?it ! 1 < 0x80" by (simp add: enter_def word_less_nat_alt)
  have not16: "modbus_data ?it ! 1 \<noteq> 16" by (simp add: enter_def)
  have "logged ?it = []" by (simp add: enter_def SerialSnooper_def)
  with low not16 exception_needs_high_bit_or_16 [OF low not16] show ?thesis by simp
qed

text \<open>
  The claim as stated fails: \<^verbatim>\<open>01 10 02 AC 01\<close> has the function code 16, below \<open>0x80\<close>,
  and is logged as an exception by the third shape of that branch.
\<close>

theorem exception_logged_for_code_16:
  "(0x10 :: byte) < 0x80
   \<and> logged (decode_frame (enter SerialSnooper [0x01, 0x10, 0x02, 0xAC, 0x01]))
       = [Decoded (Exception 0x01 0x10 0x02) [0x01, 0x10, 0x02, 0xAC, 0x01]]
   \<and> error (decode_frame (enter SerialSnooper [0x01, 0x10, 0x02, 0xAC, 0x01]))"
  by (simp add: feed_defs decode_defs frame_defs crc_defs word_less_nat_alt)

subsection \<open>C5: read responses\<close>

text \<open>
  C5, as the code has it. Take a buffer that starts with a unit identifier, a function
  code from 1 to 4 and a count byte \<open>c \<ge> 2\<close>, and whose first 8 bytes do not pass as
  a request (the request shape is tried first). As soon as \<open>5 + c\<close> bytes are buffered
  and the checksum over the first \<open>3 + c\<close> bytes is right, the round logs a response
  with the count and the \<open>c\<close> data bytes and consumes \<open>5 + c\<close> bytes; it never needs
  more than \<open>5 + c\<close> bytes. While fewer than \<open>5 + c\<close> bytes are buffered the round
  asks for more data and changes nothing else.
\<close>

theorem read_response_recognised:
  assumes fc: "modbus_data it0 ! 1 = 1 \<or> modbus_data it0 ! 1 = 2 \<or>
               modbus_data it0 ! 1 = 3 \<or> modbus_data it0 ! 1 = 4"
    and len: "2 < length (modbus_data it0)"
    and count: "2 \<le> unat (modbus_data it0 ! 2)"
    and no_request: "\<not> (8 \<le> length (modbus_data it0) \<and> crc_matches (modbus_data it0) 6)"
  shows "(5 + unat (modbus_data it0 ! 2) \<le> length (modbus_data it0) \<and>
          crc_matches (modbus_data it0) (3 + unat (modbus_data it0 ! 2))
          \<longrightarrow> decode_frame it0 =
                (accept IsResponse (read_response (modbus_data it0))
                   (5 + unat (modbus_data it0 ! 2)) (fresh it0))
                  \<lparr>need_more_data := (length (modbus_data it0) < 8)\<rparr>)
       \<and> (length (modbus_data it0) < 5 + unat (modbus_data it0 ! 2)
          \<longrightarrow> decode_frame it0 = (fresh it0)\<lparr>need_more_data := True\<rparr>)"
proof (intro conjI impI)
  let ?d = "modbus_data it0"
  let ?it = "fresh it0"
  have flags: "\<not> need_more_data ?it" "\<not> request ?it" by (simp_all add: fresh_def)
  from len fc have shapes: "decode_frame it0 =
      unless_request (counted_shape 7 2 5 IsResponse read_response)
         (fixed_shape 8 IsRequest read_request ?it)"
    by (simp add: decode_frame_def Let_def try_shapes_read)
  from no_request flags have req: "fixed_shape 8 IsRequest read_request ?it
        = ?it\<lparr>need_more_data := (length ?d < 8)\<rparr>"
    using read_request_not_matched [of ?it] by simp
  {
    assume a: "5 + unat (?d ! 2) \<le> length ?d \<and> crc_matches ?d (3 + unat (?d ! 2))"
    with count have "7 \<le> length ?d" by simp
    moreover have "5 + unat (?d ! 2) - 2 = 3 + unat (?d ! 2)" by simp
    ultimately show "decode_frame it0 =
        (accept IsResponse (read_response ?d) (5 + unat (?d ! 2)) ?it)\<lparr>need_more_data := (length ?d < 8)\<rparr>"
      using a unfolding shapes req
      by (simp add: unless_request_def counted_shape_def accept_def close_trash_def fresh_def Let_def)
  }
  {
    assume a: "length ?d < 5 + unat (?d ! 2)"
    show "decode_frame it0 = ?it\<lparr>need_more_data := True\<rparr>"
    proof (cases "length ?d < 7")
      case True
      then show ?thesis
        unfolding shapes req
        by (simp add: unless_request_def counted_shape_def fresh_def Let_def)
    next
      case False
      with a show ?thesis
        unfolding shapes req
        by (simp add: unless_request_def counted_shape_def fresh_def Let_def)
    qed
  }
qed

theorem read_response_recognised_witness:
  "logged (decode_frame (enter SerialSnooper [0x02, 0x04, 0x04, 0x00, 0x01, 0x00, 0x02, 0x18, 0x85]))
     = [Decoded (Response 0x02 0x04 (ReadByteCountData 4 [0x00, 0x01, 0x00, 0x02]))
          [0x02, 0x04, 0x04, 0x00, 0x01, 0x00, 0x02, 0x18, 0x85]]
   \<and> modbus_data (decode_frame (enter SerialSnooper [0x02, 0x04, 0x04, 0x00, 0x01, 0x00, 0x02, 0x18, 0x85]))
     = []
   \<and> decode_frame (enter SerialSnooper [0x02, 0x04, 0x04, 0x00, 0x01, 0x00, 0x02, 0x18])
     = (fresh (enter SerialSnooper [0x02, 0x04, 0x04, 0x00, 0x01, 0x00, 0x02, 0x18]))
         \<lparr>need_more_data := True\<rparr>"
proof -
  let ?a = "enter SerialSnooper [0x02, 0x04, 0x04, 0x00, 0x01, 0x00, 0x02, 0x18, 0x85]"
  let ?b = "enter SerialSnooper [0x02, 0x04, 0x04, 0x00, 0x01, 0x00, 0x02, 0x18]"
  have fa: "modbus_data ?a ! 1 = 1 \<or> modbus_data ?a ! 1 = 2 \<or> modbus_data ?a ! 1 = 3 \<or>
            modbus_data ?a ! 1 = 4"
    and la: "2 < length (modbus_data ?a)" and ca: "2 \<le> unat (modbus_data ?a ! 2)"
    by (simp_all add: enter_def)
  have na: "\<not> (8 \<le> length (modbus_data ?a) \<and> crc_matches (modbus_data ?a) 6)"
    by (simp add: enter_def crc_defs)
  have ha: "5 + unat (modbus_data ?a ! 2) \<le> length (modbus_data ?a) \<and>
          crc_matches (modbus_data ?a) (3 + unat (modbus_data ?a ! 2))"
    by (simp add: enter_def crc_defs)
  have fb: "modbus_data ?b ! 1 = 1 \<or> modbus_data ?b ! 1 = 2 \<or> modbus_data ?b ! 1 = 3 \<or>
            modbus_data ?b ! 1 = 4"
    and lb: "2 < length (modbus_data ?b)" and cb: "2 \<le> unat (modbus_data ?b ! 2)"
    by (simp_all add: enter_def)
  have nb: "\<not> (8 \<le> length (modbus_data ?b) \<and> crc_matches (modbus_data ?b) 6)"
    by (simp add: enter_def crc_defs)
  have hb: "length (modbus_data ?b) < 5 + unat (modbus_data ?b ! 2)"
    by (simp add: enter_def)
  from read_response_recognised [OF fa la ca na] ha
  have ra: "decode_frame ?a =
      (accept IsResponse (read_response (modbus_data ?a)) (5 + unat (modbus_data ?a ! 2)) (fresh ?a))
        \<lparr>need_more_data := (length (modbus_data ?a) < 8)\<rparr>"
    by blast
  from read_response_recognised [OF fb lb cb nb] hb
  have rb: "decode_frame ?b = (fresh ?b)\<lparr>need_more_data := True\<rparr>" by blast
  have "logged (decode_frame ?a)
     = [Decoded (Response 0x02 0x04 (ReadByteCountData 4 [0x00, 0x01, 0x00, 0x02]))
          [0x02, 0x04, 0x04, 0x00, 0x01, 0x00, 0x02, 0x18, 0x85]]"
    "modbus_data (decode_frame ?a) = []"
    unfolding ra
    by (simp_all add: feed_defs accept_def close_trash_def fresh_def read_response_def Let_def)
  with rb show ?thesis by simp
qed

text \<open>
  The claim as stated fails for \<open>c < 2\<close>: the 6 bytes \<^verbatim>\<open>01 01 01 05 91 8B\<close> are a read
  coils response with one data byte and the right checksum, all \<open>5 + c\<close> bytes are
  buffered, and the round asks for more data and logs nothing, because the response
  block wants 7 bytes before it reads the count.
\<close>

theorem short_read_response_not_recognised:
  "length [0x01, 0x01, 0x01, 0x05, 0x91, 0x8B :: byte] = 5 + unat (0x01 :: byte)
   \<and> crc_matches [0x01, 0x01, 0x01, 0x05, 0x91, 0x8B] 4
   \<and> need_more_data (decode_frame (enter SerialSnooper [0x01, 0x01, 0x01, 0x05, 0x91, 0x8B]))
   \<and> logged (decode_frame (enter SerialSnooper [0x01, 0x01, 0x01, 0x05, 0x91, 0x8B])) = []
   \<and> modbus_data (decode_frame (enter SerialSnooper [0x01, 0x01, 0x01, 0x05, 0x91, 0x8B]))
       = [0x01, 0x01, 0x01, 0x05, 0x91, 0x8B]"
  by (simp add: feed_defs decode_defs frame_defs crc_defs)

subsection \<open>C6: byte accounting\<close>

text \<open>
  C6. Whatever chunks are fed to \<^verbatim>\<open>process_data\<close>, empty ones included, every byte
  received is in exactly one place: the spans of the logged entries (warning lines and
  frames, in the order they were logged), followed by the bytes of the warning line
  that is still open, followed by the buffer, are the received bytes in their order.
  The noise bytes of a line that is still open are not logged yet; they come after
  everything logged and before everything buffered.
\<close>

theorem byte_accounting:
  "concat (map span (logged (feed chunks)))
     @ open_noise (trash_data (feed chunks)) (trash_data_f (feed chunks))
     @ data (feed chunks) = concat chunks"
  using account_foldl [of SerialSnooper chunks]
  by (simp add: feed_def account_def SerialSnooper_def open_noise_def)

theorem byte_accounting_witness:
  "feed [[0xFF, 0xFF, 0x01], [0x03, 0x00, 0x00, 0x00, 0x0A, 0xC5, 0xCD, 0x09], [0x09, 0x09], []]
     = \<lparr>data = [0x09, 0x09], trash_data = True, trash_data_f = [0x09],
        logged = [Ignoring [0xFF, 0xFF],
                  Decoded (Request 0x01 0x03 (ReadAddressQuantity 0 10))
                    [0x01, 0x03, 0x00, 0x00, 0x00, 0x0A, 0xC5, 0xCD]]\<rparr>
   \<and> [0xFF, 0xFF] @ [0x01, 0x03, 0x00, 0x00, 0x00, 0x0A, 0xC5, 0xCD] @ [0x09] @ [0x09, 0x09]
     = concat [[0xFF, 0xFF, 0x01], [0x03, 0x00, 0x00, 0x00, 0x0A, 0xC5, 0xCD, 0x09 :: byte],
               [0x09, 0x09], []]"
proof -
  let ?cs = "[[0xFF, 0xFF, 0x01], [0x03, 0x00, 0x00, 0x00, 0x0A, 0xC5, 0xCD, 0x09 :: byte],
              [0x09, 0x09], []]"
  have run: "feed ?cs
     = \<lparr>data = [0x09, 0x09], trash_data = True, trash_data_f = [0x09],
        logged = [Ignoring [0xFF, 0xFF],
                  Decoded (Request 0x01 0x03 (ReadAddressQuantity 0 10))
                    [0x01, 0x03, 0x00, 0x00, 0x00, 0x0A, 0xC5, 0xCD]]\<rparr>"
    by (simp add: feed_defs decode_modbus.simps decode_defs frame_defs crc_defs
          word_le_nat_alt)
  from byte_accounting [of ?cs] show ?thesis
    unfolding run by (simp add: open_noise_def)
qed

subsection \<open>C7: noise before a frame\<close>

text \<open>
  C7, as the code has it. Whenever a round recognises a request, a response or an
  exception while a warning line is open, the line is logged first, as one entry with
  all its bytes, then the frame, and the line is closed; with no line open only the
  frame is logged. For the input \<^verbatim>\<open>FF FF\<close> followed by the request
  \<^verbatim>\<open>01 03 00 00 00 0A C5 CD\<close> and a timeout, the log is the warning line with the two
  bytes \<^verbatim>\<open>FF FF\<close> and then the request, and the buffer is empty. This is not so for
  every valid frame after \<^verbatim>\<open>FF FF\<close>: the decoder may wait for more data before it
  reaches the frame.
\<close>

theorem noise_closed_before_frame:
  "(trash_data it0 \<and>
      (request (decode_frame it0) \<or> response (decode_frame it0) \<or> error (decode_frame it0))
      \<longrightarrow> (\<exists>fr bs. logged (decode_frame it0)
                     = logged it0 @ [Ignoring (trash_data_f it0), Decoded fr bs])
          \<and> \<not> trash_data (decode_frame it0))
   \<and> (\<not> trash_data it0 \<and>
      (request (decode_frame it0) \<or> response (decode_frame it0) \<or> error (decode_frame it0))
      \<longrightarrow> (\<exists>fr bs. logged (decode_frame it0) = logged it0 @ [Decoded fr bs])
          \<and> \<not> trash_data (decode_frame it0))
   \<and> feed [[0xFF, 0xFF, 0x01, 0x03, 0x00, 0x00, 0x00, 0x0A, 0xC5, 0xCD], []] =
       \<lparr>data = [], trash_data = False, trash_data_f = [0xFF, 0xFF],
        logged = [Ignoring [0xFF, 0xFF],
                  Decoded (Request 0x01 0x03 (ReadAddressQuantity 0 10))
                    [0x01, 0x03, 0x00, 0x00, 0x00, 0x0A, 0xC5, 0xCD]]\<rparr>"
proof (intro conjI impI)
  show "feed [[0xFF, 0xFF, 0x01, 0x03, 0x00, 0x00, 0x00, 0x0A, 0xC5, 0xCD], []] =
       \<lparr>data = [], trash_data = False, trash_data_f = [0xFF, 0xFF],
        logged = [Ignoring [0xFF, 0xFF],
                  Decoded (Request 0x01 0x03 (ReadAddressQuantity 0 10))
                    [0x01, 0x03, 0x00, 0x00, 0x00, 0x0A, 0xC5, 0xCD]]\<rparr>"
    by (simp add: feed_defs decode_modbus.simps decode_defs frame_defs crc_defs
          word_le_nat_alt)
next
  assume a: "trash_data it0 \<and>
      (request (decode_frame it0) \<or> response (decode_frame it0) \<or> error (decode_frame it0))"
  with round_frame [of it0] obtain k fr n where "emit_as k fr n (fresh it0) (decode_frame it0)"
    by (auto simp: emits_def)
  with a show "\<exists>fr bs. logged (decode_frame it0)
                     = logged it0 @ [Ignoring (trash_data_f it0), Decoded fr bs]"
    and "\<not> trash_data (decode_frame it0)"
    by (auto simp: emit_as_def fresh_def)
next
  assume a: "\<not> trash_data it0 \<and>
      (request (decode_frame it0) \<or> response (decode_frame it0) \<or> error (decode_frame it0))"
  with round_frame [of it0] obtain k fr n where "emit_as k fr n (fresh it0) (decode_frame it0)"
    by (auto simp: emits_def)
  with a show "\<exists>fr bs. logged (decode_frame it0) = logged it0 @ [Decoded fr bs]"
    and "\<not> trash_data (decode_frame it0)"
    by (auto simp: emit_as_def fresh_def)
qed

theorem noise_closed_before_frame_witness:
  "logged (decode_frame
      \<lparr>data = [], trash_data = True, trash_data_f = [0xFF, 0xFF], logged = [],
       modbus_data = [0x01, 0x83, 0x02, 0xC0, 0xF1], request = False, response = False,
       error = False, need_more_data = False\<rparr>)
     = [Ignoring [0xFF, 0xFF], Decoded (Exception 0x01 0x83 0x02) [0x01, 0x83, 0x02, 0xC0, 0xF1]]
   \<and> \<not> trash_data (decode_frame
      \<lparr>data = [], trash_data = True, trash_data_f = [0xFF, 0xFF], logged = [],
       modbus_data = [0x01, 0x83, 0x02, 0xC0, 0xF1], request = False, response = False,
       error = False, need_more_data = False\<rparr>)
   \<and> logged (decode_frame (enter SerialSnooper [0x01, 0x83, 0x02, 0xC0, 0xF1]))
     = [Decoded (Exception 0x01 0x83 0x02) [0x01, 0x83, 0x02, 0xC0, 0xF1]]"
  using noise_closed_before_frame [of
      "\<lparr>data = [], trash_data = True, trash_data_f = [0xFF, 0xFF], logged = [],
       modbus_data = [0x01, 0x83, 0x02, 0xC0, 0xF1], request = False, response = False,
       error = False, need_more_data = False\<rparr>"]
    noise_closed_before_frame [of "enter SerialSnooper [0x01, 0x83, 0x02, 0xC0, 0xF1]"]
  by (simp add: feed_defs decode_defs frame_defs crc_defs word_le_nat_alt)

text \<open>
  The claim as stated fails: \<^verbatim>\<open>01 83 02 C0 F1\<close> alone is logged as an exception, but after
  \<^verbatim>\<open>FF FF\<close> the decoder throws away one \<^verbatim>\<open>FF\<close>, then reads \<^verbatim>\<open>FF 01 ..\<close> as function code 1
  with too few bytes and returns: nothing is logged, the warning line holds one byte
  and stays open, six bytes stay buffered.
\<close>

theorem noise_then_short_frame_waits:
  "logged (feed [[0x01, 0x83, 0x02, 0xC0, 0xF1], []])
     = [Decoded (Exception 0x01 0x83 0x02) [0x01, 0x83, 0x02, 0xC0, 0xF1]]
   \<and> feed [[0xFF, 0xFF, 0x01, 0x83, 0x02, 0xC0, 0xF1], []]
     = \<lparr>data = [0xFF, 0x01, 0x83, 0x02, 0xC0, 0xF1], trash_data = True, trash_data_f = [0xFF],
        logged = []\<rparr>"
  by (simp add: feed_defs decode_modbus.simps decode_defs frame_defs crc_defs word_le_nat_alt)

subsection \<open>C8: the checksum example\<close>

text \<open>
  C8, as the code has it. For \<^verbatim>\<open>01 03 00 00 00 0A C5 CD\<close> the checksum \<^verbatim>\<open>calcCRC16\<close>
  computes over the first 6 bytes is \<open>0xC5CD\<close>: the first checksum byte on the wire,
  \<open>0xC5\<close>, is its high-order byte and the second, \<open>0xCD\<close>, its low-order byte. It
  equals the value the decoder reads from bytes 6 and 7, and the frame is logged as a
  request for unit 1, function code 3, address 0, quantity 10.
\<close>

theorem checksum_example:
  "calcCRC16 [0x01, 0x03, 0x00, 0x00, 0x00, 0x0A, 0xC5, 0xCD] 6 = 0xC5CD
   \<and> word_at [0x01, 0x03, 0x00, 0x00, 0x00, 0x0A, 0xC5, 0xCD] 6 = 0xC5CD
   \<and> crc_matches [0x01, 0x03, 0x00, 0x00, 0x00, 0x0A, 0xC5, 0xCD] 6
   \<and> feed [[0x01, 0x03, 0x00, 0x00, 0x00, 0x0A, 0xC5, 0xCD], []] =
       \<lparr>data = [], trash_data = False, trash_data_f = [],
        logged = [Decoded (Request 0x01 0x03 (ReadAddressQuantity 0 10))
                    [0x01, 0x03, 0x00, 0x00, 0x00, 0x0A, 0xC5, 0xCD]]\<rparr>"
  by (simp add: feed_defs decode_modbus.simps decode_defs frame_defs crc_defs)

text \<open>The claim as stated fails: the value computed is not \<open>0xCDC5\<close>.\<close>

theorem checksum_example_not_CDC5:
  "calcCRC16 [0x01, 0x03, 0x00, 0x00, 0x00, 0x0A, 0xC5, 0xCD] 6 \<noteq> 0xCDC5"
  by (simp add: crc_defs)

subsection \<open>C9: the inter-frame timeout\<close>

text \<open>
  C9. For every baud rate \<open>B\<close> other than 0 (where the division raises),
  \<^verbatim>\<open>calculate_timeout\<close> returns \<open>33 / B\<close> when \<open>B < 19200\<close> and \<open>0.00175\<close> otherwise; below
  19200 this is not the conventional \<open>38.5 / B\<close>.
\<close>

theorem timeout_formula:
  assumes "B \<noteq> 0"
  shows "calculate_timeout B = Inr (if B < 19200 then 33 / of_int B else 0.00175)
         \<and> (B < 19200 \<longrightarrow> calculate_timeout B \<noteq> Inr (38.5 / of_int B))"
  using assms by (simp add: calculate_timeout_def divide_simps)

theorem timeout_formula_witness:
  "(9600 :: int) \<noteq> 0 \<and> (57600 :: int) \<noteq> 0
   \<and> calculate_timeout 9600 = Inr (33 / 9600)
   \<and> calculate_timeout 9600 \<noteq> Inr (38.5 / 9600)
   \<and> calculate_timeout 57600 = Inr 0.00175
   \<and> calculate_timeout 19200 = Inr 0.00175"
  using timeout_formula [of 9600] timeout_formula [of 57600] timeout_formula [of 19200]
  by simp

subsection \<open>C10: the decode loop terminates\<close>

text \<open>
  C10. One round of the loop of \<^verbatim>\<open>decode_modbus\<close> either sets \<^verbatim>\<open>need_more_data\<close>, and
  the loop returns what is left of the buffer, or takes the noise branch, which cuts
  exactly one byte off the front of a buffer of at least three, or has recognised a
  frame and cut it, at least 5 bytes, off the front. So the buffer gets strictly
  shorter on every way round the loop: the function is total (its termination proof
  above uses the length of the buffer as the measure), it returns in a state with
  \<^verbatim>\<open>need_more_data\<close> set, and what it returns is a suffix of the buffer it was given.
\<close>

theorem decode_modbus_total:
  "((need_more_data (decode_frame it0) \<and>
      (\<exists>n. modbus_data (decode_frame it0) = drop n (modbus_data it0)))
   \<or> (\<not> need_more_data (decode_frame it0) \<and>
       \<not> request (decode_frame it0) \<and> \<not> response (decode_frame it0) \<and>
       \<not> error (decode_frame it0) \<and> 2 < length (modbus_data it0) \<and>
       modbus_data (ignore_byte (decode_frame it0)) = drop 1 (modbus_data it0))
   \<or> (\<not> need_more_data (decode_frame it0) \<and>
       (request (decode_frame it0) \<or> response (decode_frame it0) \<or> error (decode_frame it0)) \<and>
       (\<exists>n. 5 \<le> n \<and> n \<le> length (modbus_data it0) \<and>
            modbus_data (decode_frame it0) = drop n (modbus_data it0))))
   \<and> need_more_data (decode_modbus it0)
   \<and> (\<exists>n. modbus_data (decode_modbus it0) = drop n (modbus_data it0))"
  using round_cases [of it0] decode_modbus_returns [of it0] by blast

theorem decode_modbus_total_witness:
  "need_more_data (decode_modbus
      (enter SerialSnooper [0xFF, 0xFF, 0x01, 0x03, 0x00, 0x00, 0x00, 0x0A, 0xC5, 0xCD, 0x07]))
   \<and> modbus_data (decode_modbus
      (enter SerialSnooper [0xFF, 0xFF, 0x01, 0x03, 0x00, 0x00, 0x00, 0x0A, 0xC5, 0xCD, 0x07]))
     = drop 10 [0xFF, 0xFF, 0x01, 0x03, 0x00, 0x00, 0x00, 0x0A, 0xC5, 0xCD, 0x07]"
proof -
  let ?it = "enter SerialSnooper [0xFF, 0xFF, 0x01, 0x03, 0x00, 0x00, 0x00, 0x0A, 0xC5, 0xCD, 0x07]"
  have "modbus_data (decode_modbus ?it) = [0x07]"
    by (simp add: feed_defs decode_modbus.simps decode_defs frame_defs crc_defs word_le_nat_alt)
  with decode_modbus_total [of ?it] show ?thesis by simp
qed

end
